theory Spec2Isabelle
  imports Complex_Main
begin

section \<open>Scripture store: data model\<close>

text \<open>
  The mobile scripture service keeps one module-level translation key
  (\<open>activeVersion\<close>) and one module-level database handle (\<open>db\<close>).  The
  reader screen keeps its own React state and the reading-state overlay lives in
  AsyncStorage.  Each asynchronous function of the source becomes a function from the
  state before the call to a result and the state after it; a rejected promise is the
  \<open>Inl\<close> branch of the result.
\<close>

datatype BibleVersionKey = cuv | cnv | asv

record BibleBook =
  SN :: int
  FullName :: string
  ShortName :: string
  NewOrOld :: int
  ChapterNumber :: int

record BibleVerse =
  ID :: int
  VolumeSN :: int
  ChapterSN :: int
  VerseSN :: int
  Lection :: string

datatype error =
    FileSystemError
  | AssetError
  | MissingLocalUri string
  | CopyError
  | OpenError
  | QueryError
  | SyntaxError

subsection \<open>Database files and the two table layouts\<close>

text \<open>
  The \<open>cuv\<close> and \<open>cnv\<close> files hold the tables \<open>BibleID\<close> and \<open>Bible\<close>, whose columns
  are the fields of \<open>BibleBook\<close> and \<open>BibleVerse\<close>.  The \<open>asv\<close> file holds \<open>ASV_books\<close>
  (\<open>id\<close>, \<open>name\<close>) and \<open>ASV_verses\<close> (\<open>id\<close>, \<open>book_id\<close>, \<open>chapter\<close>, \<open>verse\<close>, \<open>text\<close>);
  their columns carry a prefix here where the plain name is taken.
\<close>

record ASV_book =
  b_id :: int
  b_name :: string

record ASV_verse =
  v_id :: int
  book_id :: int
  v_chapter :: int
  v_verse :: int
  v_text :: string

datatype database =
    BibleID_Bible "BibleBook list" "BibleVerse list"
  | ASV_tables "ASV_book list" "ASV_verse list"

subsection \<open>\<open>VERSION_CONFIG\<close>\<close>

fun dbName :: "BibleVersionKey \<Rightarrow> string" where
  "dbName cuv = ''bible_cuv.db''"
| "dbName cnv = ''bible_cnv.db''"
| "dbName asv = ''ASV.db''"

text \<open>SQLite's \<open>TRIM(text)\<close> removes the spaces at both ends.\<close>

definition TRIM :: "string \<Rightarrow> string" where
  "TRIM s = rev (dropWhile (\<lambda>c. c = CHR '' '') (rev (dropWhile (\<lambda>c. c = CHR '' '') s)))"

text \<open>
  \<open>booksQuery\<close>.  For \<open>cuv\<close> and \<open>cnv\<close>: all rows of \<open>BibleID\<close> ordered by \<open>SN\<close>.  For
  \<open>asv\<close>: \<open>ASV_books\<close> joined with \<open>ASV_verses\<close> on the book id, grouped by the book id,
  one row per book that has a verse, with the largest chapter as \<open>ChapterNumber\<close>.
  A query run against a file of the other layout fails (no such table).
\<close>

definition asv_book_row :: "ASV_verse list \<Rightarrow> ASV_book \<Rightarrow> BibleBook" where
  "asv_book_row vs b =
     \<lparr> SN = b_id b, FullName = b_name b, ShortName = b_name b,
       NewOrOld = (if b_id b \<le> 39 then 0 else 1),
       ChapterNumber = Max (set (map v_chapter (filter (\<lambda>v. book_id v = b_id b) vs))) \<rparr>"

fun group_by_id :: "ASV_book list \<Rightarrow> ASV_book list" where
  "group_by_id [] = []"
| "group_by_id (b # bs) = b # group_by_id (filter (\<lambda>c. b_id c \<noteq> b_id b) bs)"

fun booksQuery :: "BibleVersionKey \<Rightarrow> database \<Rightarrow> error + BibleBook list" where
  "booksQuery asv (ASV_tables bs vs) =
     Inr (map (asv_book_row vs)
       (sort_key b_id (group_by_id (filter (\<lambda>b. b_id b \<in> set (map book_id vs)) bs))))"
| "booksQuery asv (BibleID_Bible bs vs) = Inl QueryError"
| "booksQuery _ (BibleID_Bible bs vs) = Inr (sort_key SN bs)"
| "booksQuery _ (ASV_tables bs vs) = Inl QueryError"

text \<open>
  \<open>versesQuery\<close> bound to \<open>verseParams(bookId, chapter) = [bookId, chapter]\<close>: the rows of
  the verse table with that book and chapter, ordered by the verse number.
\<close>

definition asv_verse_row :: "ASV_verse \<Rightarrow> BibleVerse" where
  "asv_verse_row v =
     \<lparr> ID = v_id v, VolumeSN = book_id v, ChapterSN = v_chapter v, VerseSN = v_verse v,
       Lection = TRIM (v_text v) \<rparr>"

fun versesQuery :: "BibleVersionKey \<Rightarrow> database \<Rightarrow> int \<Rightarrow> int \<Rightarrow> error + BibleVerse list" where
  "versesQuery asv (ASV_tables bs vs) bookId chapter =
     Inr (map asv_verse_row
       (sort_key v_verse (filter (\<lambda>v. book_id v = bookId \<and> v_chapter v = chapter) vs)))"
| "versesQuery asv (BibleID_Bible bs vs) bookId chapter = Inl QueryError"
| "versesQuery _ (BibleID_Bible bs vs) bookId chapter =
     Inr (sort_key VerseSN (filter (\<lambda>v. VolumeSN v = bookId \<and> ChapterSN v = chapter) vs))"
| "versesQuery _ (ASV_tables bs vs) bookId chapter = Inl QueryError"

section \<open>The mobile service module\<close>

text \<open>
  A handle is identified by the order in which it was opened and remembers the file name
  given to \<open>openDatabaseAsync\<close>.  The state holds the two module variables, the part of
  the file system the service touches, the handles that the SQLite layer has open, and a
  log of the platform calls that matter here (most recent first).
\<close>

record handle =
  handle_no :: nat
  handle_file :: string

datatype platform_call =
    CloseAsync handle
  | OpenDatabaseAsync string
  | CopyAsync string string

record service =
  activeVersion :: BibleVersionKey
  db :: "handle option"
  documentDirectory :: string
  files :: "string list"
  directories :: "string list"
  open_handles :: "handle list"
  opened_so_far :: nat
  calls :: "platform_call list"

text \<open>
  What the platform answers during one call of a service function: whether each awaited
  platform promise resolves, and the \<open>localUri\<close> of the downloaded asset.  One answer
  stands for the two \<open>getInfoAsync\<close> calls of a provisioning.
\<close>

record outcomes =
  getInfoAsync_ok :: bool
  makeDirectoryAsync_ok :: bool
  downloadAsync_ok :: bool
  localUri :: "string option"
  copyAsync_ok :: bool
  openDatabaseAsync_ok :: bool
  closeAsync_ok :: bool
  getAllAsync_ok :: bool

definition dbDir :: "service \<Rightarrow> string" where
  "dbDir s = documentDirectory s @ ''SQLite''"

definition dbPath :: "service \<Rightarrow> BibleVersionKey \<Rightarrow> string" where
  "dbPath s version = dbDir s @ ''/'' @ dbName version"

definition ensureDatabaseReady ::
  "outcomes \<Rightarrow> BibleVersionKey \<Rightarrow> service \<Rightarrow> (error + string) \<times> service" where
  "ensureDatabaseReady oc version s =
     (if \<not> getInfoAsync_ok oc then (Inl FileSystemError, s)
      else if dbPath s version \<in> set (files s) then (Inr (dbPath s version), s)
      else if dbDir s \<notin> set (directories s) \<and> \<not> makeDirectoryAsync_ok oc
        then (Inl FileSystemError, s)
      else
        let s1 = (if dbDir s \<in> set (directories s) then s
                  else s\<lparr>directories := dbDir s # directories s\<rparr>)
        in if \<not> downloadAsync_ok oc then (Inl AssetError, s1)
           else (case localUri oc of
                   None \<Rightarrow> (Inl (MissingLocalUri (dbName version)), s1)
                 | Some uri \<Rightarrow>
                     if uri = [] then (Inl (MissingLocalUri (dbName version)), s1)
                     else
                       let s2 = s1\<lparr>calls := CopyAsync uri (dbPath s version) # calls s1\<rparr>
                       in if copyAsync_ok oc
                          then (Inr (dbPath s version),
                                s2\<lparr>files := dbPath s version # files s2\<rparr>)
                          else (Inl CopyError, s2)))"

definition initDatabase :: "outcomes \<Rightarrow> service \<Rightarrow> (error + handle) \<times> service" where
  "initDatabase oc s =
     (case db s of
        Some h \<Rightarrow> (Inr h, s)
      | None \<Rightarrow>
          (case ensureDatabaseReady oc (activeVersion s) s of
             (Inl e, s1) \<Rightarrow> (Inl e, s1)
           | (Inr p, s1) \<Rightarrow>
               let s2 = s1\<lparr>calls := OpenDatabaseAsync (dbName (activeVersion s)) # calls s1\<rparr>
               in if openDatabaseAsync_ok oc
                  then
                    let h = \<lparr> handle_no = opened_so_far s2,
                              handle_file = dbName (activeVersion s) \<rparr>
                    in (Inr h, s2\<lparr>db := Some h, open_handles := h # open_handles s2,
                                  opened_so_far := Suc (opened_so_far s2)\<rparr>)
                  else (Inl OpenError, s2)))"

text \<open>
  The functions above and below give a call that runs from its first line to its last
  with no other call of the module in between.  The source suspends at every \<open>await\<close>,
  and another call may run meanwhile.  A call of \<open>initDatabase\<close> that found \<open>db\<close> empty
  has read \<open>activeVersion\<close> before its first \<open>await\<close>; what it does once the platform
  answers is \<open>initDatabase_resume\<close>: it provisions and opens the file of the version it
  read and assigns \<open>db\<close>, without looking at \<open>db\<close> or \<open>activeVersion\<close> again.
\<close>

definition initDatabase_resume ::
  "outcomes \<Rightarrow> BibleVersionKey \<Rightarrow> service \<Rightarrow> (error + handle) \<times> service" where
  "initDatabase_resume oc version s =
     (case ensureDatabaseReady oc version s of
        (Inl e, s1) \<Rightarrow> (Inl e, s1)
      | (Inr p, s1) \<Rightarrow>
          let s2 = s1\<lparr>calls := OpenDatabaseAsync (dbName version) # calls s1\<rparr>
          in if openDatabaseAsync_ok oc
             then
               let h = \<lparr> handle_no = opened_so_far s2, handle_file = dbName version \<rparr>
               in (Inr h, s2\<lparr>db := Some h, open_handles := h # open_handles s2,
                             opened_so_far := Suc (opened_so_far s2)\<rparr>)
             else (Inl OpenError, s2))"

text \<open>
  \<open>setActiveBibleVersion\<close>.  A rejected \<open>closeAsync\<close> is caught and only logged by the
  source; the handle it was called on then stays among the open ones in this model.
\<close>

definition close_existing :: "outcomes \<Rightarrow> service \<Rightarrow> service" where
  "close_existing oc s =
     (case db s of
        None \<Rightarrow> s
      | Some h \<Rightarrow>
          s\<lparr>db := None,
            open_handles := (if closeAsync_ok oc then removeAll h (open_handles s)
                             else open_handles s),
            calls := CloseAsync h # calls s\<rparr>)"

definition setActiveBibleVersion ::
  "outcomes \<Rightarrow> BibleVersionKey \<Rightarrow> service \<Rightarrow> (error + unit) \<times> service" where
  "setActiveBibleVersion oc version s =
     (if version = activeVersion s then (Inr (), s)
      else
        (case initDatabase oc ((close_existing oc s)\<lparr>activeVersion := version\<rparr>) of
           (Inl e, s1) \<Rightarrow> (Inl e, s1)
         | (Inr h, s1) \<Rightarrow> (Inr (), s1)))"

definition getActiveBibleVersion :: "service \<Rightarrow> BibleVersionKey" where
  "getActiveBibleVersion s = activeVersion s"

text \<open>
  \<open>getBooks\<close> and \<open>getVerses\<close> run the active version's query on the handle that
  \<open>initDatabase\<close> returns; \<open>contents\<close> gives the database stored in the file of a name.
\<close>

definition getBooks ::
  "outcomes \<Rightarrow> (string \<Rightarrow> database) \<Rightarrow> service \<Rightarrow> (error + BibleBook list) \<times> service" where
  "getBooks oc contents s =
     (case initDatabase oc s of
        (Inl e, s1) \<Rightarrow> (Inl e, s1)
      | (Inr database, s1) \<Rightarrow>
          if getAllAsync_ok oc
          then (booksQuery (activeVersion s1) (contents (handle_file database)), s1)
          else (Inl QueryError, s1))"

definition getVerses ::
  "outcomes \<Rightarrow> (string \<Rightarrow> database) \<Rightarrow> int \<Rightarrow> int \<Rightarrow> service
     \<Rightarrow> (error + BibleVerse list) \<times> service" where
  "getVerses oc contents bookId chapter s =
     (case initDatabase oc s of
        (Inl e, s1) \<Rightarrow> (Inl e, s1)
      | (Inr database, s1) \<Rightarrow>
          if getAllAsync_ok oc
          then (versesQuery (activeVersion s1) (contents (handle_file database)) bookId chapter, s1)
          else (Inl QueryError, s1))"

section \<open>The reader screen\<close>

text \<open>
  The React state of \<open>BibleScreen\<close> that the handlers below read and write.  A handler
  reads the state it was created with and the setters give the state after it.  The
  field \<open>chapter\<close> of a history item is written \<open>h_chapter\<close>.
\<close>

datatype bookTab = tab_old | tab_new

record HistoryItem =
  bookSN :: int
  h_chapter :: int
  bookName :: string
  timestamp :: int

record screen =
  books :: "BibleBook list"
  currentBook :: "BibleBook option"
  currentChapter :: int
  verses :: "BibleVerse list"
  loading :: bool
  bookTab :: bookTab
  showTranslationModal :: bool
  translation :: BibleVersionKey
  highlightedVerses :: "string \<rightharpoonup> bool"
  readingHistory :: "HistoryItem list"
  isSelectionMode :: bool
  selectedVersesForAction :: "int list"

subsection \<open>\<open>loadBooks\<close> and \<open>handleTranslationChange\<close>\<close>

text \<open>
  The options of \<open>loadBooks\<close>; \<open>None\<close> is \<open>undefined\<close>.  A number is truthy when it is
  not \<open>0\<close>.
\<close>

record options =
  preferredBookSN :: "int option"
  preferredChapter :: "int option"

definition truthy :: "int option \<Rightarrow> bool" where
  "truthy n = (case n of None \<Rightarrow> False | Some v \<Rightarrow> v \<noteq> 0)"

definition loadBooks ::
  "outcomes \<Rightarrow> (string \<Rightarrow> database) \<Rightarrow> options \<Rightarrow> service \<times> screen
     \<Rightarrow> (error + BibleBook option) \<times> service \<times> screen" where
  "loadBooks oc contents opts = (\<lambda>(s, ui).
     (case getBooks oc contents s of
        (Inl e, s1) \<Rightarrow> (Inl e, s1, ui)
      | (Inr data, s1) \<Rightarrow>
          (case data of
             [] \<Rightarrow> (Inr None, s1, ui\<lparr>books := data, currentBook := None, verses := []\<rparr>)
           | first # rest \<Rightarrow>
               let nextBook =
                     (if truthy (preferredBookSN opts)
                      then (case find (\<lambda>b. Some (SN b) = preferredBookSN opts) data of
                              Some matched \<Rightarrow> matched
                            | None \<Rightarrow> first)
                      else first);
                   nextChapter =
                     (if truthy (preferredChapter opts)
                      then min (the (preferredChapter opts)) (ChapterNumber nextBook)
                      else 1)
               in (Inr (Some nextBook), s1,
                   ui\<lparr>books := data, currentBook := Some nextBook,
                      currentChapter := nextChapter\<rparr>))))"

definition handleTranslationChange ::
  "outcomes \<Rightarrow> (string \<Rightarrow> database) \<Rightarrow> BibleVersionKey \<Rightarrow> service \<times> screen
     \<Rightarrow> service \<times> screen" where
  "handleTranslationChange oc contents version = (\<lambda>(s, ui).
     if version = translation ui then (s, ui\<lparr>showTranslationModal := False\<rparr>)
     else
       let opts = \<lparr> preferredBookSN = map_option SN (currentBook ui),
                    preferredChapter = Some (currentChapter ui) \<rparr>;
           previousTranslation = translation ui;
           ui1 = ui\<lparr>showTranslationModal := False, loading := True, verses := []\<rparr>
       in (case setActiveBibleVersion oc version s of
             (Inl e, s1) \<Rightarrow> (s1, ui1\<lparr>translation := previousTranslation, loading := False\<rparr>)
           | (Inr u, s1) \<Rightarrow>
               (case loadBooks oc contents opts (s1, ui1\<lparr>translation := version\<rparr>) of
                  (Inl e, s2, ui2) \<Rightarrow>
                    (s2, ui2\<lparr>translation := previousTranslation, loading := False\<rparr>)
                | (Inr None, s2, ui2) \<Rightarrow> (s2, ui2\<lparr>loading := False\<rparr>)
                | (Inr (Some nextBook), s2, ui2) \<Rightarrow>
                    (s2, ui2\<lparr>bookTab := (if NewOrOld nextBook = 0 then tab_old else tab_new)\<rparr>))))"

subsection \<open>Reading history\<close>

text \<open>
  What AsyncStorage holds under a key is represented by what the source makes of it:
  no item (or the empty string, which the source treats alike), a text that
  \<open>JSON.parse\<close> rejects, or the value it parses to.  \<open>JSON.stringify\<close> followed by
  \<open>JSON.parse\<close> gives the value back, so a write stores \<open>Parsed\<close> of the value written.
  The history item is an array of entries or, in the legacy format, one entry.
\<close>

datatype 'a stored = Missing | Unparsable | Parsed 'a

datatype history_json = ItemArray "HistoryItem list" | LegacyObject HistoryItem

record reader_storage =
  bible_highlights :: "(string \<rightharpoonup> bool) stored"
  bible_reading_history :: "history_json stored"

record storage_outcomes =
  getItem_ok :: bool
  setItem_ok :: bool

fun stored_history :: "history_json stored \<Rightarrow> error + HistoryItem list" where
  "stored_history Missing = Inr []"
| "stored_history Unparsable = Inl SyntaxError"
| "stored_history (Parsed (ItemArray history)) = Inr history"
| "stored_history (Parsed (LegacyObject h)) = Inr [h]"

text \<open>Lines 152 to 159 of the effect: drop the same position, put the new item first, keep 20.\<close>

definition with_new_item :: "HistoryItem \<Rightarrow> HistoryItem list \<Rightarrow> HistoryItem list" where
  "with_new_item newItem history =
     (let history1 = filter (\<lambda>h. \<not> (bookSN h = bookSN newItem \<and> h_chapter h = h_chapter newItem))
                       history;
          history2 = newItem # history1
      in if length history2 > 20 then take 20 history2 else history2)"

text \<open>
  \<open>saveHistory\<close>, the effect that runs when \<open>currentBook\<close> or \<open>currentChapter\<close> changes;
  \<open>now\<close> is \<open>Date.now()\<close>.  Every failure inside is caught and only logged.
\<close>

definition saveHistory ::
  "storage_outcomes \<Rightarrow> int \<Rightarrow> reader_storage \<times> screen \<Rightarrow> reader_storage \<times> screen" where
  "saveHistory so now = (\<lambda>(st, ui).
     (case currentBook ui of
        None \<Rightarrow> (st, ui)
      | Some book \<Rightarrow>
          if currentChapter ui = 0 then (st, ui)
          else
            let newItem = \<lparr> bookSN = SN book, h_chapter = currentChapter ui,
                            bookName = FullName book, timestamp = now \<rparr>
            in if \<not> getItem_ok so then (st, ui)
               else (case stored_history (bible_reading_history st) of
                       Inl e \<Rightarrow> (st, ui)
                     | Inr history \<Rightarrow>
                         if \<not> setItem_ok so then (st, ui)
                         else (st\<lparr>bible_reading_history :=
                                    Parsed (ItemArray (with_new_item newItem history))\<rparr>,
                               ui\<lparr>readingHistory := with_new_item newItem history\<rparr>))))"

text \<open>
  Opening a chapter from the book and chapter pickers sets the position; the effect then
  records it.  \<open>visits\<close> does so for a list of positions, each with its time.
\<close>

definition openChapter ::
  "storage_outcomes \<Rightarrow> BibleBook \<times> int \<times> int \<Rightarrow> reader_storage \<times> screen
     \<Rightarrow> reader_storage \<times> screen" where
  "openChapter so = (\<lambda>(book, num, now) (st, ui).
     saveHistory so now (st, ui\<lparr>currentBook := Some book, currentChapter := num\<rparr>))"

definition visits ::
  "storage_outcomes \<Rightarrow> (BibleBook \<times> int \<times> int) list \<Rightarrow> reader_storage \<times> screen
     \<Rightarrow> reader_storage \<times> screen" where
  "visits so ps start = foldl (\<lambda>state p. openChapter so p state) start ps"

definition item_of :: "BibleBook \<times> int \<times> int \<Rightarrow> HistoryItem" where
  "item_of = (\<lambda>(book, num, now).
     \<lparr> bookSN = SN book, h_chapter = num, bookName = FullName book, timestamp = now \<rparr>)"

definition position :: "HistoryItem \<Rightarrow> int \<times> int" where
  "position h = (bookSN h, h_chapter h)"

subsection \<open>Highlights\<close>

text \<open>A template literal prints an integer in decimal, with a minus sign when negative.\<close>

fun decimal :: "nat \<Rightarrow> string" where
  "decimal n =
     (if n < 10 then [''0123456789'' ! n]
      else decimal (n div 10) @ [''0123456789'' ! (n mod 10)])"

declare decimal.simps [simp del]

definition toString :: "int \<Rightarrow> string" where
  "toString i = (if i < 0 then ''-'' @ decimal (nat (- i)) else decimal (nat i))"

definition getVerseKey :: "BibleVerse \<Rightarrow> string" where
  "getVerseKey v = toString (VolumeSN v) @ ''-'' @ toString (ChapterSN v) @ ''-'' @ toString (VerseSN v)"

text \<open>\<open>!!highlightedVerses[verseKey]\<close>: a missing key reads as \<open>undefined\<close>, which is falsy.\<close>

definition flag :: "(string \<rightharpoonup> bool) \<Rightarrow> string \<Rightarrow> bool" where
  "flag m key = (case m key of None \<Rightarrow> False | Some b \<Rightarrow> b)"

definition isHighlighted :: "screen \<Rightarrow> BibleVerse \<Rightarrow> bool" where
  "isHighlighted ui item = flag (highlightedVerses ui) (getVerseKey item)"

definition persistHighlights ::
  "storage_outcomes \<Rightarrow> (string \<rightharpoonup> bool) \<Rightarrow> reader_storage \<times> screen
     \<Rightarrow> reader_storage \<times> screen" where
  "persistHighlights so data = (\<lambda>(st, ui).
     (if setItem_ok so then st\<lparr>bible_highlights := Parsed data\<rparr> else st,
      ui\<lparr>highlightedVerses := data\<rparr>))"

definition loadStoredData ::
  "storage_outcomes \<Rightarrow> reader_storage \<times> screen \<Rightarrow> reader_storage \<times> screen" where
  "loadStoredData so = (\<lambda>(st, ui).
     if \<not> getItem_ok so then (st, ui)
     else (case bible_highlights st of
             Missing \<Rightarrow> (st, ui)
           | Unparsable \<Rightarrow> (st, ui)
           | Parsed data \<Rightarrow> (st, ui\<lparr>highlightedVerses := data\<rparr>)))"

definition exitSelectionMode :: "screen \<Rightarrow> screen" where
  "exitSelectionMode ui = ui\<lparr>isSelectionMode := False, selectedVersesForAction := []\<rparr>"

text \<open>
  The two \<open>forEach\<close> loops of \<open>handleHighlightSelected\<close> over the selected verse numbers,
  in the order of their insertion into the set.
\<close>

definition add_highlight ::
  "BibleVerse list \<Rightarrow> int \<Rightarrow> (string \<rightharpoonup> bool) \<times> bool \<Rightarrow> (string \<rightharpoonup> bool) \<times> bool" where
  "add_highlight vs sn = (\<lambda>(nextState, hasChanges).
     (case find (\<lambda>v. VerseSN v = sn) vs of
        None \<Rightarrow> (nextState, hasChanges)
      | Some verse \<Rightarrow>
          if \<not> flag nextState (getVerseKey verse)
          then (nextState(getVerseKey verse \<mapsto> True), True)
          else (nextState, hasChanges)))"

definition remove_highlight ::
  "BibleVerse list \<Rightarrow> int \<Rightarrow> (string \<rightharpoonup> bool) \<Rightarrow> (string \<rightharpoonup> bool)" where
  "remove_highlight vs sn nextState =
     (case find (\<lambda>v. VerseSN v = sn) vs of
        None \<Rightarrow> nextState
      | Some verse \<Rightarrow> nextState(getVerseKey verse := None))"

definition handleHighlightSelected ::
  "storage_outcomes \<Rightarrow> reader_storage \<times> screen \<Rightarrow> reader_storage \<times> screen" where
  "handleHighlightSelected so = (\<lambda>(st, ui).
     let (nextState, hasChanges) =
           fold (add_highlight (verses ui)) (selectedVersesForAction ui)
             (highlightedVerses ui, False);
         nextState' =
           (if \<not> hasChanges
            then fold (remove_highlight (verses ui)) (selectedVersesForAction ui) nextState
            else nextState);
         (st1, ui1) = persistHighlights so nextState' (st, ui)
     in (st1, exitSelectionMode ui1))"

text \<open>
  \<open>onVersePress\<close> in selection mode removes or adds the verse number, and leaves the
  mode when the selection becomes empty; outside selection mode it only moves the verse
  cursor and the controls, which are not part of \<open>screen\<close>.
\<close>

definition onVersePress :: "BibleVerse \<Rightarrow> screen \<Rightarrow> screen" where
  "onVersePress verse ui =
     (if isSelectionMode ui
      then if VerseSN verse \<in> set (selectedVersesForAction ui)
           then if removeAll (VerseSN verse) (selectedVersesForAction ui) = []
                then exitSelectionMode ui
                else ui\<lparr>selectedVersesForAction :=
                         removeAll (VerseSN verse) (selectedVersesForAction ui)\<rparr>
           else ui\<lparr>selectedVersesForAction := selectedVersesForAction ui @ [VerseSN verse]\<rparr>
      else ui)"

definition onVerseLongPress :: "BibleVerse \<Rightarrow> screen \<Rightarrow> screen" where
  "onVerseLongPress verse ui =
     (if \<not> isSelectionMode ui
      then ui\<lparr>isSelectionMode := True, selectedVersesForAction := [VerseSN verse]\<rparr>
      else onVersePress verse ui)"

text \<open>
  Selecting several verses: a long press on the first, a press on each of the others.
  \<open>highlightVerses\<close> is the highlight button pressed on such a selection.
\<close>

definition selectVerses :: "BibleVerse list \<Rightarrow> screen \<Rightarrow> screen" where
  "selectVerses vs ui =
     (case vs of [] \<Rightarrow> ui | v # rest \<Rightarrow> fold onVersePress rest (onVerseLongPress v ui))"

definition highlightVerses ::
  "storage_outcomes \<Rightarrow> BibleVerse list \<Rightarrow> reader_storage \<times> screen
     \<Rightarrow> reader_storage \<times> screen" where
  "highlightVerses so vs = (\<lambda>(st, ui). handleHighlightSelected so (st, selectVerses vs ui))"

text \<open>
  Toggling the highlight of one verse: a long press selects it alone, the highlight
  button then runs \<open>handleHighlightSelected\<close>.
\<close>

definition toggleHighlight ::
  "storage_outcomes \<Rightarrow> BibleVerse \<Rightarrow> reader_storage \<times> screen \<Rightarrow> reader_storage \<times> screen" where
  "toggleHighlight so verse = (\<lambda>(st, ui). handleHighlightSelected so (st, onVerseLongPress verse ui))"

section \<open>Reading progress of a post\<close>

text \<open>
  The items under the \<open>reading_progress_\<close> prefix are plain texts read by \<open>parseFloat\<close>.
  \<open>parseFloat\<close> skips leading white space, reads the longest prefix that is a decimal
  literal (a sign, \<open>Infinity\<close> or digits with an optional fraction and exponent) and gives
  \<open>NaN\<close> when there is none.  \<open>Finite\<close> carries the mathematical value of the literal; the
  rounding of that value to a double is not modelled.
\<close>

datatype number = NaN | Infinity bool | Finite rat

definition isWhiteSpace :: "char \<Rightarrow> bool" where
  "isWhiteSpace c = (c \<in> set [CHR '' '', CHR 0x09, CHR 0x0A, CHR 0x0B, CHR 0x0C, CHR 0x0D])"

definition isDigit :: "char \<Rightarrow> bool" where
  "isDigit c = (c \<in> set ''0123456789'')"

definition digitValue :: "char \<Rightarrow> nat" where
  "digitValue c = length (takeWhile (\<lambda>d. d \<noteq> c) ''0123456789'')"

definition digitsValue :: "string \<Rightarrow> nat" where
  "digitsValue ds = foldl (\<lambda>a c. 10 * a + digitValue c) 0 ds"

definition signOf :: "string \<Rightarrow> bool \<times> string" where
  "signOf t =
     (case t of
        [] \<Rightarrow> (False, t)
      | c # r \<Rightarrow> if c = CHR ''-'' then (True, r) else if c = CHR ''+'' then (False, r) else (False, t))"

definition exponentPart :: "string \<Rightarrow> int" where
  "exponentPart t =
     (case t of
        [] \<Rightarrow> 0
      | c # r \<Rightarrow>
          if c = CHR ''e'' \<or> c = CHR ''E''
          then (let (neg, u) = signOf r; ds = takeWhile isDigit u
                in if ds = [] then 0
                   else if neg then - int (digitsValue ds) else int (digitsValue ds))
          else 0)"

definition parseFloat :: "string \<Rightarrow> number" where
  "parseFloat inputString =
     (let (neg, u) = signOf (dropWhile isWhiteSpace inputString)
      in if take 8 u = ''Infinity'' then Infinity neg
         else
           let intPart = takeWhile isDigit u;
               r1 = dropWhile isDigit u;
               (fracPart, r2) =
                 (case r1 of
                    [] \<Rightarrow> ([], r1)
                  | c # r \<Rightarrow> if c = CHR ''.''
                            then (takeWhile isDigit r, dropWhile isDigit r)
                            else ([], r1))
           in if intPart = [] \<and> fracPart = [] then NaN
              else
                let mantissa = (of_nat (digitsValue (intPart @ fracPart)) :: rat)
                                 / 10 ^ length fracPart;
                    e = exponentPart r2;
                    magnitude = (if 0 \<le> e then mantissa * 10 ^ nat e
                                 else mantissa / 10 ^ nat (- e))
                in Finite (if neg then - magnitude else magnitude))"

definition PROGRESS_PREFIX :: string where
  "PROGRESS_PREFIX = ''reading_progress_''"

text \<open>
  \<open>getReadingProgress\<close>: a rejected \<open>getItem\<close> is caught and gives \<open>0\<close>; a missing item
  or the empty string gives \<open>0\<close>; any other text goes through \<open>parseFloat\<close>.
\<close>

definition getReadingProgress ::
  "storage_outcomes \<Rightarrow> (string \<rightharpoonup> string) \<Rightarrow> int \<Rightarrow> number" where
  "getReadingProgress so items postId =
     (if \<not> getItem_ok so then Finite 0
      else (case items (PROGRESS_PREFIX @ toString postId) of
              None \<Rightarrow> Finite 0
            | Some val \<Rightarrow> if val \<noteq> [] then parseFloat val else Finite 0))"

section \<open>The web service module\<close>

text \<open>
  The web \<open>BibleService\<close> has no active version: every function takes the version, and
  \<open>initDB\<close> keeps one \<open>Database\<close> per version in \<open>databases\<close> and one promise per
  version in \<open>initPromises\<close>.  Calls are taken one after the other, each awaited to its
  end, so a promise found in \<open>initPromises\<close> is settled: \<open>True\<close> when it was fulfilled,
  \<open>False\<close> when it was rejected.  A \<open>Database\<close> is identified by the number of fetches
  made before it; \<open>fetched\<close> logs the fetches, most recent first.
\<close>

datatype BibleVersion = web_cuv | web_asv

datatype web_error = InitFailed

record web_service =
  databases :: "BibleVersion \<rightharpoonup> nat"
  initPromises :: "BibleVersion \<rightharpoonup> bool"
  fetched :: "BibleVersion list"

record web_outcomes =
  initSqlJs_ok :: bool
  fetch_ok :: bool

definition initDB ::
  "web_outcomes \<Rightarrow> BibleVersion \<Rightarrow> web_service \<Rightarrow> (web_error + unit) \<times> web_service" where
  "initDB wo version w =
     (if databases w version \<noteq> None then (Inr (), w)
      else
        (case initPromises w version of
           Some fulfilled \<Rightarrow> (if fulfilled then Inr () else Inl InitFailed, w)
         | None \<Rightarrow>
             if \<not> initSqlJs_ok wo
             then (Inl InitFailed, w\<lparr>initPromises := (initPromises w)(version \<mapsto> False)\<rparr>)
             else if fetch_ok wo
             then (Inr (),
                   w\<lparr>databases := (databases w)(version \<mapsto> length (fetched w)),
                     initPromises := (initPromises w)(version \<mapsto> True),
                     fetched := version # fetched w\<rparr>)
             else (Inl InitFailed,
                   w\<lparr>initPromises := (initPromises w)(version \<mapsto> False),
                     fetched := version # fetched w\<rparr>)))"

definition page_loaded :: web_service where
  "page_loaded = \<lparr> databases = Map.empty, initPromises = Map.empty, fetched = [] \<rparr>"

definition web_ok :: web_outcomes where
  "web_ok = \<lparr> initSqlJs_ok = True, fetch_ok = True \<rparr>"

section \<open>Vocabulary of the properties\<close>

subsection \<open>Counting copies, sequences of requests\<close>


fun is_close :: "platform_call \<Rightarrow> bool" where
  "is_close (CloseAsync h) = True"
| "is_close (CopyAsync src dst) = False"
| "is_close (OpenDatabaseAsync n) = False"


text \<open>
  The module starts with \<open>activeVersion = 'cuv'\<close> and \<open>db = null\<close>; files of an earlier
  run may be on disk.  A request is one call of an exported function, together with what
  the platform answers during it; \<open>after\<close> runs a list of requests one after the other,
  each awaited to its end before the next is issued.  Calls that overlap are not runs of
  \<open>after\<close>.
\<close>

definition module_loaded :: "string \<Rightarrow> string list \<Rightarrow> string list \<Rightarrow> service" where
  "module_loaded dir fs ds =
     \<lparr> activeVersion = cuv, db = None, documentDirectory = dir, files = fs,
       directories = ds, open_handles = [], opened_so_far = 0, calls = [] \<rparr>"

datatype request =
    SetActiveBibleVersion BibleVersionKey
  | InitDatabase
  | GetBooks
  | GetVerses int int

fun serve :: "(string \<Rightarrow> database) \<Rightarrow> outcomes \<times> request \<Rightarrow> service \<Rightarrow> service" where
  "serve contents (oc, SetActiveBibleVersion version) s = snd (setActiveBibleVersion oc version s)"
| "serve contents (oc, InitDatabase) s = snd (initDatabase oc s)"
| "serve contents (oc, GetBooks) s = snd (getBooks oc contents s)"
| "serve contents (oc, GetVerses bookId chapter) s = snd (getVerses oc contents bookId chapter s)"

definition after :: "(string \<Rightarrow> database) \<Rightarrow> (outcomes \<times> request) list \<Rightarrow> service \<Rightarrow> service" where
  "after contents script s = fold (serve contents) script s"

definition held :: "service \<Rightarrow> handle list" where
  "held s = (case db s of None \<Rightarrow> [] | Some h \<Rightarrow> [h])"

text \<open>
  The state is tidy when the handles open in the SQLite layer are the one the module
  holds, if any, and that one was opened on the active version's file.
\<close>

definition tidy :: "service \<Rightarrow> bool" where
  "tidy s = (open_handles s = held s
             \<and> (case db s of None \<Rightarrow> True
                 | Some h \<Rightarrow> handle_file h = dbName (activeVersion s)))"

subsection \<open>The history after a list of new items\<close>

definition log_all :: "HistoryItem list \<Rightarrow> HistoryItem list \<Rightarrow> HistoryItem list" where
  "log_all history items = foldl (\<lambda>h x. with_new_item x h) history items"

subsection \<open>Rows of a chapter\<close>

fun layout_fits :: "BibleVersionKey \<Rightarrow> database \<Rightarrow> bool" where
  "layout_fits asv (ASV_tables bs vs) = True"
| "layout_fits asv (BibleID_Bible bs vs) = False"
| "layout_fits _ (BibleID_Bible bs vs) = True"
| "layout_fits _ (ASV_tables bs vs) = False"

text \<open>The verse numbers that the verse table holds for a book and chapter, in table order.\<close>

fun verse_numbers :: "database \<Rightarrow> int \<Rightarrow> int \<Rightarrow> int list" where
  "verse_numbers (BibleID_Bible bs vs) bookId chapter =
     map VerseSN (filter (\<lambda>v. VolumeSN v = bookId \<and> ChapterSN v = chapter) vs)"
| "verse_numbers (ASV_tables bs vs) bookId chapter =
     map v_verse (filter (\<lambda>v. book_id v = bookId \<and> v_chapter v = chapter) vs)"

fun indexed_rows :: "database \<Rightarrow> int \<Rightarrow> int \<Rightarrow> nat" where
  "indexed_rows (BibleID_Bible bs vs) bookId chapter =
     length (filter (\<lambda>v. VolumeSN v = bookId \<and> ChapterSN v = chapter) vs)"
| "indexed_rows (ASV_tables bs vs) bookId chapter =
     length (filter (\<lambda>v. book_id v = bookId \<and> v_chapter v = chapter) vs)"

subsection \<open>A small device\<close>

definition responsive :: outcomes where
  "responsive =
     \<lparr> getInfoAsync_ok = True, makeDirectoryAsync_ok = True, downloadAsync_ok = True,
       localUri = Some ''file:///cache/asset.db'', copyAsync_ok = True,
       openDatabaseAsync_ok = True, closeAsync_ok = True, getAllAsync_ok = True \<rparr>"

definition storage_ok :: storage_outcomes where
  "storage_ok = \<lparr> getItem_ok = True, setItem_ok = True \<rparr>"

definition genesis :: BibleBook where
  "genesis = \<lparr> SN = 1, FullName = ''Genesis'', ShortName = ''Gen'', NewOrOld = 0,
               ChapterNumber = 50 \<rparr>"

definition psalms :: BibleBook where
  "psalms = \<lparr> SN = 19, FullName = ''Psalms'', ShortName = ''Ps'', NewOrOld = 0,
              ChapterNumber = 150 \<rparr>"

definition psalm_5 :: "BibleVerse list" where
  "psalm_5 =
     [\<lparr> ID = 14001, VolumeSN = 19, ChapterSN = 5, VerseSN = 2, Lection = ''Hearken'' \<rparr>,
      \<lparr> ID = 14000, VolumeSN = 19, ChapterSN = 5, VerseSN = 1, Lection = ''Give ear'' \<rparr>,
      \<lparr> ID = 1, VolumeSN = 1, ChapterSN = 1, VerseSN = 1, Lection = ''In the beginning'' \<rparr>]"

definition psalm_5_shown :: "BibleVerse list" where
  "psalm_5_shown =
     [\<lparr> ID = 14000, VolumeSN = 19, ChapterSN = 5, VerseSN = 1, Lection = ''Give ear'' \<rparr>,
      \<lparr> ID = 14001, VolumeSN = 19, ChapterSN = 5, VerseSN = 2, Lection = ''Hearken'' \<rparr>]"

text \<open>
  The files of a device whose \<open>ASV.db\<close> holds Genesis only, with a verse in chapter 50,
  and whose other files hold Genesis and Psalms.
\<close>

definition bundled :: "string \<Rightarrow> database" where
  "bundled name =
     (if name = ''ASV.db''
      then ASV_tables [\<lparr> b_id = 1, b_name = ''Genesis'' \<rparr>]
             [\<lparr> v_id = 1533, book_id = 1, v_chapter = 50, v_verse = 26,
                v_text = '' So Joseph died '' \<rparr>]
      else BibleID_Bible [psalms, genesis] psalm_5)"

text \<open>Files whose verse table holds Psalm 5:1 in two rows.\<close>

definition doubled :: "string \<Rightarrow> database" where
  "doubled name =
     BibleID_Bible [psalms]
       [\<lparr> ID = 14000, VolumeSN = 19, ChapterSN = 5, VerseSN = 1, Lection = ''Give ear'' \<rparr>,
        \<lparr> ID = 14001, VolumeSN = 19, ChapterSN = 5, VerseSN = 1, Lection = ''Give ear'' \<rparr>]"

definition reading_cuv :: service where
  "reading_cuv = snd (initDatabase responsive (module_loaded ''file:///data/'' [] []))"

definition at_psalm_5 :: screen where
  "at_psalm_5 =
     \<lparr> books = [genesis, psalms], currentBook = Some psalms, currentChapter = 5,
       verses = psalm_5_shown, loading = False, bookTab = tab_old, showTranslationModal = True,
       translation = cuv, highlightedVerses = Map.empty, readingHistory = [],
       isSelectionMode = False, selectedVersesForAction = [] \<rparr>"

text \<open>Chapters 1 to 21 of Genesis, opened one after the other.\<close>

definition genesis_1_to_21 :: "(BibleBook \<times> int \<times> int) list" where
  "genesis_1_to_21 =
     map (\<lambda>n. (genesis, n, 1700000000000 + n))
       [1, 2, 3, 4, 5, 6, 7, 8, 9, 10, 11, 12, 13, 14, 15, 16, 17, 18, 19, 20, 21]"

definition psalm_5_1_highlighted :: screen where
  "psalm_5_1_highlighted = at_psalm_5\<lparr>highlightedVerses := [''19-5-1'' \<mapsto> True]\<rparr>"

definition nothing_stored :: reader_storage where
  "nothing_stored = \<lparr> bible_highlights = Missing, bible_reading_history = Missing \<rparr>"

section \<open>Properties\<close>

lemmas service_defs =
  setActiveBibleVersion_def initDatabase_def ensureDatabaseReady_def close_existing_def
  getBooks_def getVerses_def dbPath_def dbDir_def getActiveBibleVersion_def

subsection \<open>Switching to the active version\<close>

text \<open>
  C9.  Calling \<open>setActiveBibleVersion\<close> with the key that is already active returns the
  state unchanged, whatever the platform would answer: the module variables, the open
  handles and the log of platform calls are the same, so nothing is closed or reopened.
  The screen's handler likewise only hides the picker when the chosen version is the one
  it shows, and does not reach the service.
\<close>

theorem switch_to_active_version_is_noop:
  "setActiveBibleVersion oc (activeVersion s) s = (Inr (), s)
   \<and> handleTranslationChange oc contents (translation ui) (s, ui) =
       (s, ui\<lparr>showTranslationModal := False\<rparr>)"
  by (simp add: setActiveBibleVersion_def handleTranslationChange_def)

subsection \<open>Provisioning\<close>


lemma ensure_frame:
  "ensureDatabaseReady oc version s = (r, s1) \<Longrightarrow>
   activeVersion s1 = activeVersion s \<and> db s1 = db s \<and> open_handles s1 = open_handles s
   \<and> opened_so_far s1 = opened_so_far s \<and> documentDirectory s1 = documentDirectory s"
  by (auto simp: ensureDatabaseReady_def Let_def split: if_splits option.splits)




subsection \<open>Handles\<close>

lemma initDatabase_held:
  "db s = Some h \<Longrightarrow> initDatabase oc s = (Inr h, s)"
  by (simp add: initDatabase_def)

lemma initDatabase_tidy:
  assumes "tidy s"
  shows "tidy (snd (initDatabase oc s))"
proof (cases "db s")
  case (Some h)
  with assms show ?thesis by (simp add: initDatabase_def)
next
  case None
  obtain r s1 where e: "ensureDatabaseReady oc (activeVersion s) s = (r, s1)"
    by (cases "ensureDatabaseReady oc (activeVersion s) s")
  from ensure_frame [OF e] None assms have "tidy s1"
    by (simp add: tidy_def held_def)
  with e None ensure_frame [OF e] show ?thesis
    by (cases r) (auto simp: initDatabase_def tidy_def held_def Let_def)
qed

lemma close_existing_tidy:
  "tidy s \<Longrightarrow> closeAsync_ok oc \<Longrightarrow> tidy ((close_existing oc s)\<lparr>activeVersion := version\<rparr>)"
  by (auto simp: tidy_def held_def close_existing_def split: option.splits)

lemma setActiveBibleVersion_state:
  "snd (setActiveBibleVersion oc version s) =
     (if version = activeVersion s then s
      else snd (initDatabase oc ((close_existing oc s)\<lparr>activeVersion := version\<rparr>)))"
  by (auto simp: setActiveBibleVersion_def split: prod.splits sum.splits)

lemma getBooks_state: "snd (getBooks oc contents s) = snd (initDatabase oc s)"
  by (auto simp: getBooks_def split: prod.splits sum.splits)

lemma getVerses_state: "snd (getVerses oc contents bookId chapter s) = snd (initDatabase oc s)"
  by (auto simp: getVerses_def split: prod.splits sum.splits)

lemma serve_tidy:
  "tidy s \<Longrightarrow> closeAsync_ok oc \<Longrightarrow> tidy (serve contents (oc, r) s)"
  by (cases r)
     (simp_all add: setActiveBibleVersion_state getBooks_state getVerses_state
        initDatabase_tidy close_existing_tidy)

lemma after_tidy:
  "tidy s \<Longrightarrow> \<forall>(oc, r) \<in> set script. closeAsync_ok oc \<Longrightarrow> tidy (after contents script s)"
proof (induction script arbitrary: s)
  case Nil
  then show ?case by (simp add: after_def)
next
  case (Cons x script)
  obtain oc r where x: "x = (oc, r)" by (cases x)
  with Cons.prems have "tidy (serve contents x s)"
    by (simp add: serve_tidy)
  with Cons.IH [of "serve contents x s"] Cons.prems(2) show ?case
    by (simp add: after_def)
qed

lemma close_before_open:
  assumes "db s = Some h" "version \<noteq> activeVersion s"
  shows "\<exists>later. calls (snd (setActiveBibleVersion oc version s)) = later @ CloseAsync h # calls s
           \<and> CloseAsync h \<notin> set later"
proof -
  let ?s = "(close_existing oc s)\<lparr>activeVersion := version\<rparr>"
  have c: "calls ?s = CloseAsync h # calls s" and d: "db ?s = None"
    using assms by (simp_all add: close_existing_def)
  obtain r s1 where e: "ensureDatabaseReady oc version ?s = (r, s1)"
    by (cases "ensureDatabaseReady oc version ?s")
  then have "\<exists>l. calls s1 = l @ calls ?s \<and> CloseAsync h \<notin> set l"
    by (auto simp: ensureDatabaseReady_def Let_def split: if_splits option.splits)
  then obtain l where l: "calls s1 = l @ calls ?s" "CloseAsync h \<notin> set l" by blast
  have "snd (setActiveBibleVersion oc version s) = snd (initDatabase oc ?s)"
    using assms by (simp add: setActiveBibleVersion_state)
  moreover have "\<exists>k. calls (snd (initDatabase oc ?s)) = k @ calls s1 \<and> CloseAsync h \<notin> set k"
    using d e by (cases r) (auto simp: initDatabase_def Let_def)
  ultimately show ?thesis
    using l c by auto
qed

lemma initDatabase_unsuspended:
  "initDatabase oc s =
     (case db s of
        Some h \<Rightarrow> (Inr h, s)
      | None \<Rightarrow> initDatabase_resume oc (activeVersion s) s)"
  by (simp add: initDatabase_def initDatabase_resume_def split: option.splits)

lemma dbName_inj: "dbName v = dbName w \<Longrightarrow> v = w"
  by (cases v; cases w) simp_all

lemma rejected_close_leaves_both:
  assumes "tidy s" and "db s = Some h" and "version \<noteq> activeVersion s"
    and "\<not> closeAsync_ok oc"
  shows "h \<in> set (open_handles (snd (setActiveBibleVersion oc version s)))
     \<and> (fst (setActiveBibleVersion oc version s) = Inr () \<longrightarrow>
          (\<exists>new. open_handles (snd (setActiveBibleVersion oc version s)) = [new, h]
             \<and> db (snd (setActiveBibleVersion oc version s)) = Some new
             \<and> handle_file new = dbName version
             \<and> handle_file h \<noteq> handle_file new))"
proof -
  let ?s = "(close_existing oc s)\<lparr>activeVersion := version\<rparr>"
  from assms(1,2) have hfile: "handle_file h = dbName (activeVersion s)"
    and only: "open_handles s = [h]"
    by (simp_all add: tidy_def held_def)
  from assms(3) dbName_inj have differ: "dbName (activeVersion s) \<noteq> dbName version"
    by blast
  have closed: "db ?s = None" "open_handles ?s = [h]" "activeVersion ?s = version"
    using assms(2,4) only by (simp_all add: close_existing_def)
  obtain q s1 where e: "ensureDatabaseReady oc version ?s = (q, s1)"
    by (cases "ensureDatabaseReady oc version ?s")
  from ensure_frame [OF e] closed have s1: "open_handles s1 = [h]" "db s1 = None"
    by simp_all
  have state: "setActiveBibleVersion oc version s = (case initDatabase oc ?s of
      (Inl e, s1) \<Rightarrow> (Inl e, s1) | (Inr h, s1) \<Rightarrow> (Inr (), s1))"
    using assms(3) by (simp add: setActiveBibleVersion_def)
  show ?thesis
    unfolding state
    using closed e s1 hfile differ
    by (cases q) (auto simp: initDatabase_def Let_def)
qed

text \<open>
  C2, as amended.  Take calls of \<open>setActiveBibleVersion\<close>, \<open>initDatabase\<close>, \<open>getBooks\<close>
  and \<open>getVerses\<close> made one after the other from the loaded module, each awaited to its
  end before the next is issued, and in which every \<open>closeAsync\<close> resolves.  After them
  the handles open in the SQLite layer are exactly the one held in \<open>db\<close>: at most one,
  opened on the active version's file.  A query made while a handle is held uses that
  handle and opens nothing, and a switch to another version calls \<open>closeAsync\<close> on the
  held handle before anything it does later.  When that \<open>closeAsync\<close> rejects, in a state
  where the held handle is the only one open, the handle stays open; if the switch then
  succeeds, the new version's handle is open beside it and is the one held.
\<close>

theorem one_handle_while_closes_succeed:
  assumes "\<forall>(oc, r) \<in> set script. closeAsync_ok oc"
  shows "open_handles (after contents script (module_loaded dir fs ds)) =
           held (after contents script (module_loaded dir fs ds))
         \<and> length (open_handles (after contents script (module_loaded dir fs ds))) \<le> 1
         \<and> (\<forall>h \<in> set (open_handles (after contents script (module_loaded dir fs ds))).
               handle_file h = dbName (activeVersion (after contents script (module_loaded dir fs ds))))
         \<and> (db s = Some h \<longrightarrow> initDatabase oc s = (Inr h, s))
         \<and> (db s = Some h \<and> version \<noteq> activeVersion s \<longrightarrow>
               (\<exists>later. calls (snd (setActiveBibleVersion oc version s)) = later @ CloseAsync h # calls s
                  \<and> CloseAsync h \<notin> set later))
         \<and> (tidy s \<and> db s = Some h \<and> version \<noteq> activeVersion s \<and> \<not> closeAsync_ok oc \<longrightarrow>
               h \<in> set (open_handles (snd (setActiveBibleVersion oc version s)))
               \<and> (fst (setActiveBibleVersion oc version s) = Inr () \<longrightarrow>
                    (\<exists>new. open_handles (snd (setActiveBibleVersion oc version s)) = [new, h]
                       \<and> db (snd (setActiveBibleVersion oc version s)) = Some new
                       \<and> handle_file new = dbName version
                       \<and> handle_file h \<noteq> handle_file new)))"
proof -
  let ?s = "after contents script (module_loaded dir fs ds)"
  have "tidy (module_loaded dir fs ds)"
    by (simp add: tidy_def held_def module_loaded_def)
  then have t: "tidy ?s"
    using assms by (rule after_tidy)
  then have 1: "open_handles ?s = held ?s"
    by (simp add: tidy_def)
  then have 2: "length (open_handles ?s) \<le> 1"
    by (simp add: held_def split: option.splits)
  have 3: "\<forall>h \<in> set (open_handles ?s). handle_file h = dbName (activeVersion ?s)"
    using t by (auto simp: tidy_def held_def split: option.splits)
  have 4: "db s = Some h \<longrightarrow> initDatabase oc s = (Inr h, s)"
    by (simp add: initDatabase_held)
  have 5: "db s = Some h \<and> version \<noteq> activeVersion s \<longrightarrow>
      (\<exists>later. calls (snd (setActiveBibleVersion oc version s)) = later @ CloseAsync h # calls s
         \<and> CloseAsync h \<notin> set later)"
    using close_before_open by blast
  have 6: "tidy s \<and> db s = Some h \<and> version \<noteq> activeVersion s \<and> \<not> closeAsync_ok oc \<longrightarrow>
      h \<in> set (open_handles (snd (setActiveBibleVersion oc version s)))
      \<and> (fst (setActiveBibleVersion oc version s) = Inr () \<longrightarrow>
           (\<exists>new. open_handles (snd (setActiveBibleVersion oc version s)) = [new, h]
              \<and> db (snd (setActiveBibleVersion oc version s)) = Some new
              \<and> handle_file new = dbName version
              \<and> handle_file h \<noteq> handle_file new))"
    using rejected_close_leaves_both by blast
  from 1 2 3 4 5 6 show ?thesis
    by (intro conjI)
qed

text \<open>
  C2 as stated fails in two ways.  When \<open>closeAsync\<close> rejects, the source catches the
  rejection, drops the handle and opens the new file: after loading \<open>cuv\<close> and switching
  to \<open>asv\<close> the handle on \<open>bible_cuv.db\<close> and the one on \<open>ASV.db\<close> are open together.
  And when a switch to \<open>asv\<close> runs while the first \<open>initDatabase\<close>, which found \<open>db\<close>
  empty and read \<open>cuv\<close>, is suspended, the switch finds nothing to close and opens
  \<open>ASV.db\<close>, and the resumed call opens \<open>bible_cuv.db\<close> and assigns it to \<open>db\<close>: both
  handles are open, no \<open>closeAsync\<close> was called, and the held handle is not on the active
  version's file.
\<close>

theorem two_handles_open_together:
  "map handle_file (open_handles (after bundled
      [(responsive, GetBooks),
       (responsive\<lparr>closeAsync_ok := False\<rparr>, SetActiveBibleVersion asv)]
      (module_loaded ''file:///data/'' [] []))) = [''ASV.db'', ''bible_cuv.db'']
   \<and> db (module_loaded ''file:///data/'' [] []) = None
   \<and> activeVersion (module_loaded ''file:///data/'' [] []) = cuv
   \<and> map handle_file (open_handles (snd (initDatabase_resume responsive cuv
        (snd (setActiveBibleVersion responsive asv (module_loaded ''file:///data/'' [] []))))))
       = [''bible_cuv.db'', ''ASV.db'']
   \<and> filter is_close (calls (snd (initDatabase_resume responsive cuv
        (snd (setActiveBibleVersion responsive asv (module_loaded ''file:///data/'' [] []))))))
       = []
   \<and> map_option handle_file (db (snd (initDatabase_resume responsive cuv
        (snd (setActiveBibleVersion responsive asv (module_loaded ''file:///data/'' [] []))))))
       = Some ''bible_cuv.db''
   \<and> activeVersion (snd (initDatabase_resume responsive cuv
        (snd (setActiveBibleVersion responsive asv (module_loaded ''file:///data/'' [] [])))))
       = asv"
  by (simp add: after_def getBooks_state setActiveBibleVersion_state initDatabase_def
      initDatabase_resume_def ensureDatabaseReady_def close_existing_def responsive_def
      module_loaded_def dbPath_def dbDir_def Let_def)

text \<open>With every close resolving, the same run ends with the \<open>ASV.db\<close> handle alone.\<close>

theorem one_handle_while_closes_succeed_witness:
  "map handle_file (open_handles (after bundled
      [(responsive, GetBooks), (responsive, SetActiveBibleVersion asv), (responsive, GetVerses 1 50)]
      (module_loaded ''file:///data/'' [] []))) = [''ASV.db'']
   \<and> length (open_handles (after bundled
      [(responsive, GetBooks), (responsive, SetActiveBibleVersion asv), (responsive, GetVerses 1 50)]
      (module_loaded ''file:///data/'' [] []))) \<le> 1"
  using one_handle_while_closes_succeed
    [of "[(responsive, GetBooks), (responsive, SetActiveBibleVersion asv), (responsive, GetVerses 1 50)]"
        bundled "''file:///data/''" "[]" "[]"]
  by (simp add: after_def getBooks_state getVerses_state setActiveBibleVersion_state initDatabase_def
      ensureDatabaseReady_def close_existing_def responsive_def module_loaded_def
      dbPath_def dbDir_def Let_def held_def)

subsection \<open>The web service\<close>

text \<open>
  The web module never closes a \<open>Database\<close>: once created it stays in \<open>databases\<close>, so
  after the books of two versions have been asked for, both databases are there.  A
  second \<open>initDB\<close> for the same version fetches nothing, whether the first succeeded
  or not.
\<close>

lemma initDB_keeps_databases:
  "databases w v = Some d \<Longrightarrow> databases (snd (initDB wo version w)) v = Some d"
  by (auto simp: initDB_def split: option.splits)

lemma initDB_twice_fetches_once:
  "fetched (snd (initDB wo2 version (snd (initDB wo1 version w)))) =
   fetched (snd (initDB wo1 version w))"
  by (auto simp: initDB_def split: option.splits)

lemma web_databases_coexist:
  "databases (snd (initDB web_ok web_asv (snd (initDB web_ok web_cuv page_loaded)))) web_cuv = Some 0
   \<and> databases (snd (initDB web_ok web_asv (snd (initDB web_ok web_cuv page_loaded)))) web_asv = Some 1"
  by (simp add: initDB_def web_ok_def page_loaded_def)

subsection \<open>A switch that fails\<close>

lemma reading_cuv_eq:
  "reading_cuv =
     \<lparr> activeVersion = cuv, db = Some \<lparr>handle_no = 0, handle_file = ''bible_cuv.db''\<rparr>,
       documentDirectory = ''file:///data/'', files = [''file:///data/SQLite/bible_cuv.db''],
       directories = [''file:///data/SQLite''],
       open_handles = [\<lparr>handle_no = 0, handle_file = ''bible_cuv.db''\<rparr>],
       opened_so_far = 1,
       calls = [OpenDatabaseAsync ''bible_cuv.db'',
                CopyAsync ''file:///cache/asset.db'' ''file:///data/SQLite/bible_cuv.db''] \<rparr>"
  by (simp add: reading_cuv_def initDatabase_def ensureDatabaseReady_def responsive_def
      module_loaded_def dbPath_def dbDir_def Let_def)

lemma failed_switch_state:
  assumes "setActiveBibleVersion oc version s = (Inl e, s1)"
  shows "activeVersion s1 = version \<and> db s1 = None"
proof -
  let ?s = "(close_existing oc s)\<lparr>activeVersion := version\<rparr>"
  from assms have differs: "version \<noteq> activeVersion s"
    by (auto simp: setActiveBibleVersion_def)
  with assms have failed: "initDatabase oc ?s = (Inl e, s1)"
    by (auto simp: setActiveBibleVersion_def split: prod.splits sum.splits)
  have none: "db ?s = None"
    by (simp add: close_existing_def split: option.splits)
  obtain q s2 where e: "ensureDatabaseReady oc version ?s = (q, s2)"
    by (cases "ensureDatabaseReady oc version ?s")
  from ensure_frame [OF e] have "db s2 = None" and "activeVersion s2 = version"
    using none by simp_all
  with failed none e show ?thesis
    by (cases q) (auto simp: initDatabase_def Let_def split: if_splits)
qed

text \<open>
  C1.  The source assigns \<open>activeVersion\<close> before it provisions and opens the new file
  and does not restore it when that fails.  On a device reading \<open>cuv\<close>, a switch to
  \<open>asv\<close> whose asset has no \<open>localUri\<close> fails; afterwards the service reports \<open>asv\<close> as
  the active version and holds no handle, while the screen, which restores its own
  \<open>translation\<close> in the \<open>catch\<close>, shows \<open>cuv\<close>.
\<close>

theorem failed_switch_leaves_new_version_active:
  "getActiveBibleVersion reading_cuv = cuv
   \<and> getActiveBibleVersion
        (fst (handleTranslationChange (responsive\<lparr>localUri := None\<rparr>) bundled asv
               (reading_cuv, at_psalm_5))) = asv
   \<and> db (fst (handleTranslationChange (responsive\<lparr>localUri := None\<rparr>) bundled asv
               (reading_cuv, at_psalm_5))) = None
   \<and> translation
        (snd (handleTranslationChange (responsive\<lparr>localUri := None\<rparr>) bundled asv
               (reading_cuv, at_psalm_5))) = cuv"
  by (simp add: reading_cuv_eq handleTranslationChange_def service_defs responsive_def
      at_psalm_5_def Let_def)

subsection \<open>The reading position across a switch\<close>

text \<open>
  C3 as stated fails in the fallback.  Reading Psalms 5 in \<open>cuv\<close> and switching to an
  \<open>asv\<close> file that has Genesis only, the screen lands on Genesis, the first book, at
  chapter 5 and not at chapter 1.
\<close>

theorem fallback_keeps_the_old_chapter:
  "map SN (books (snd (handleTranslationChange responsive bundled asv (reading_cuv, at_psalm_5))))
     = [1]
   \<and> map_option SN
        (currentBook (snd (handleTranslationChange responsive bundled asv (reading_cuv, at_psalm_5))))
     = Some 1
   \<and> currentChapter (snd (handleTranslationChange responsive bundled asv (reading_cuv, at_psalm_5)))
     = 5"
  by (simp add: reading_cuv_eq handleTranslationChange_def loadBooks_def service_defs
      responsive_def at_psalm_5_def bundled_def psalms_def asv_book_row_def truthy_def Let_def)


lemma loadBooks_nonempty:
  assumes "getBooks oc contents s1 = (Inr data, s2)" and "data \<noteq> []"
  shows "loadBooks oc contents opts (s1, ui) =
     (let nextBook =
            (if truthy (preferredBookSN opts)
             then (case find (\<lambda>b. Some (SN b) = preferredBookSN opts) data of
                     Some matched \<Rightarrow> matched
                   | None \<Rightarrow> hd data)
             else hd data)
      in (Inr (Some nextBook), s2,
          ui\<lparr>books := data, currentBook := Some nextBook,
             currentChapter :=
               (if truthy (preferredChapter opts)
                then min (the (preferredChapter opts)) (ChapterNumber nextBook)
                else 1)\<rparr>))"
  using assms by (cases data) (auto simp add: loadBooks_def Let_def split: option.split)

lemma find_serial_Some:
  "find (\<lambda>b. SN b = n) data = Some matched \<Longrightarrow> SN matched = n \<and> matched \<in> set data"
  by (induction data) (auto split: if_splits)

lemma find_serial_None:
  "find (\<lambda>b. SN b = n) data = None \<Longrightarrow> n \<notin> set (map SN data)"
  by (induction data) (auto split: if_splits)

text \<open>
  C3, as amended.  Take a switch to another version that succeeds and whose book list
  is not empty, made while a book with a serial number other than 0 is open at a chapter
  other than 0.  The screen then shows the new version and its book list, positioned at the
  first book of the list with the same serial number if there is one and at the first
  book of the list otherwise; in both cases the chapter is the smaller of the old
  chapter and the chapter count of the book chosen.
\<close>

theorem position_after_switch:
  assumes "version \<noteq> translation ui"
    and "setActiveBibleVersion oc version s = (Inr (), s1)"
    and "getBooks oc contents s1 = (Inr data, s2)"
    and "data \<noteq> []"
    and "currentBook ui = Some book"
    and "SN book \<noteq> 0"
    and "currentChapter ui \<noteq> 0"
  shows "let ui' = snd (handleTranslationChange oc contents version (s, ui));
             nextBook = (case find (\<lambda>b. SN b = SN book) data of
                           Some matched \<Rightarrow> matched
                         | None \<Rightarrow> hd data)
         in fst (handleTranslationChange oc contents version (s, ui)) = s2
          \<and> translation ui' = version
          \<and> books ui' = data
          \<and> currentBook ui' = Some nextBook
          \<and> currentChapter ui' = min (currentChapter ui) (ChapterNumber nextBook)
          \<and> (SN book \<in> set (map SN data) \<longrightarrow> SN nextBook = SN book)
          \<and> (SN book \<notin> set (map SN data) \<longrightarrow> nextBook = hd data)"
proof -
  let ?opts = "\<lparr> preferredBookSN = map_option SN (currentBook ui),
                  preferredChapter = Some (currentChapter ui) \<rparr>"
  let ?next = "case find (\<lambda>b. SN b = SN book) data of
                 Some matched \<Rightarrow> matched | None \<Rightarrow> hd data"
  let ?ui1 = "ui\<lparr>showTranslationModal := False, loading := True, verses := [],
                 translation := version\<rparr>"
  have load: "loadBooks oc contents ?opts (s1, ?ui1) =
      (Inr (Some ?next), s2,
       ?ui1\<lparr>books := data, currentBook := Some ?next,
            currentChapter := min (currentChapter ui) (ChapterNumber ?next)\<rparr>)"
    using assms(5,6,7) by (simp add: loadBooks_nonempty [OF assms(3,4)] truthy_def Let_def)
  have run: "handleTranslationChange oc contents version (s, ui) =
      (s2, ?ui1\<lparr>books := data, currentBook := Some ?next,
                currentChapter := min (currentChapter ui) (ChapterNumber ?next),
                bookTab := (if NewOrOld ?next = 0 then tab_old else tab_new)\<rparr>)"
    using assms(1,2) load by (simp add: handleTranslationChange_def Let_def)
  have found: "SN book \<in> set (map SN data) \<longrightarrow> SN ?next = SN book"
  proof (cases "find (\<lambda>b. SN b = SN book) data")
    case None
    from find_serial_None [OF this] show ?thesis by blast
  next
    case (Some matched)
    from find_serial_Some [OF this] Some show ?thesis by simp
  qed
  have missing: "SN book \<notin> set (map SN data) \<longrightarrow> ?next = hd data"
  proof (cases "find (\<lambda>b. SN b = SN book) data")
    case None
    then show ?thesis by simp
  next
    case (Some matched)
    from find_serial_Some [OF this] have "SN book \<in> set (map SN data)"
      by (metis image_eqI set_map)
    then show ?thesis by blast
  qed
  show ?thesis
    unfolding Let_def run using found missing by simp
qed

text \<open>Psalms at chapter 151, switching from \<open>cuv\<close> to \<open>cnv\<close>: Psalms again, at chapter 150.\<close>

theorem position_after_switch_witness:
  "map_option SN (currentBook (snd (handleTranslationChange responsive bundled cnv
      (reading_cuv, at_psalm_5\<lparr>currentChapter := 151\<rparr>)))) = Some 19
   \<and> currentChapter (snd (handleTranslationChange responsive bundled cnv
      (reading_cuv, at_psalm_5\<lparr>currentChapter := 151\<rparr>))) = 150"
proof -
  let ?s1 = "snd (setActiveBibleVersion responsive cnv reading_cuv)"
  have 1: "cnv \<noteq> translation (at_psalm_5\<lparr>currentChapter := 151\<rparr>)"
    by (simp add: at_psalm_5_def)
  have 2: "setActiveBibleVersion responsive cnv reading_cuv = (Inr (), ?s1)"
    by (simp add: reading_cuv_eq service_defs responsive_def Let_def)
  have 3: "getBooks responsive bundled ?s1 = (Inr [genesis, psalms], ?s1)"
    by (simp add: reading_cuv_eq service_defs responsive_def bundled_def genesis_def psalms_def
        Let_def)
  have 4: "[genesis, psalms] \<noteq> []"
    by simp
  have 5: "currentBook (at_psalm_5\<lparr>currentChapter := 151\<rparr>) = Some psalms"
    by (simp add: at_psalm_5_def)
  have 6: "SN psalms \<noteq> 0"
    by (simp add: psalms_def)
  have 7: "currentChapter (at_psalm_5\<lparr>currentChapter := 151\<rparr>) \<noteq> 0"
    by simp
  show ?thesis
    using position_after_switch [OF 1 2 3 4 5 6 7]
    by (simp add: Let_def genesis_def psalms_def)
qed

subsection \<open>Verses of a chapter\<close>

lemma VerseSN_asv_verse_row: "VerseSN \<circ> asv_verse_row = v_verse"
  by (simp add: fun_eq_iff asv_verse_row_def)

lemma versesQuery_rows:
  assumes "versesQuery version d bookId chapter = Inr rows"
  shows "sorted (map VerseSN rows) \<and> (\<forall>v \<in> set rows. VolumeSN v = bookId \<and> ChapterSN v = chapter)"
proof (cases d)
  case (BibleID_Bible bs vs)
  with assms have "rows = sort_key VerseSN (filter (\<lambda>v. VolumeSN v = bookId \<and> ChapterSN v = chapter) vs)"
    by (cases version) auto
  then show ?thesis by simp
next
  case (ASV_tables bs vs)
  with assms have "rows = map asv_verse_row
      (sort_key v_verse (filter (\<lambda>v. book_id v = bookId \<and> v_chapter v = chapter) vs))"
    by (cases version) auto
  then show ?thesis
    by (simp add: VerseSN_asv_verse_row) (simp add: asv_verse_row_def)
qed

lemma versesQuery_fits:
  "layout_fits version d \<Longrightarrow>
   \<exists>rows. versesQuery version d bookId chapter = Inr rows
        \<and> length rows = indexed_rows d bookId chapter"
  by (cases version; cases d) simp_all

lemma initDatabase_version:
  "initDatabase oc s = (r, s1) \<Longrightarrow> activeVersion s1 = activeVersion s"
proof (cases "db s")
  case None
  assume a: "initDatabase oc s = (r, s1)"
  obtain q s2 where e: "ensureDatabaseReady oc (activeVersion s) s = (q, s2)"
    by (cases "ensureDatabaseReady oc (activeVersion s) s")
  from ensure_frame [OF e] a e None show ?thesis
    by (cases q) (auto simp: initDatabase_def Let_def split: if_splits)
next
  case (Some h)
  assume "initDatabase oc s = (r, s1)"
  with Some show ?thesis by (simp add: initDatabase_def)
qed

lemma distinct_map_insort_key:
  "distinct (map f (insort_key f a xs)) = (f a \<notin> f ` set xs \<and> distinct (map f xs))"
  by (induction xs) (auto simp: set_insort_key)

lemma distinct_map_sort_key: "distinct (map f (sort_key f xs)) = distinct (map f xs)"
  by (induction xs) (simp_all add: distinct_map_insort_key)

lemma versesQuery_numbers:
  assumes "versesQuery version d bookId chapter = Inr rows"
  shows "distinct (map VerseSN rows) = distinct (verse_numbers d bookId chapter)"
proof (cases d)
  case (BibleID_Bible bs vs)
  with assms have "rows = sort_key VerseSN (filter (\<lambda>v. VolumeSN v = bookId \<and> ChapterSN v = chapter) vs)"
    by (cases version) auto
  with BibleID_Bible show ?thesis
    by (simp add: distinct_map_sort_key)
next
  case (ASV_tables bs vs)
  with assms have "rows = map asv_verse_row
      (sort_key v_verse (filter (\<lambda>v. book_id v = bookId \<and> v_chapter v = chapter) vs))"
    by (cases version) auto
  with ASV_tables show ?thesis
    by (simp add: VerseSN_asv_verse_row distinct_map_sort_key)
qed

text \<open>
  C5 as stated fails where the verse table repeats a verse number: from a file that holds
  Psalm 5:1 in two rows \<open>getVerses\<close> returns both, with the verse numbers 1 and 1, which
  is not a strictly ascending sequence.
\<close>

theorem repeated_verse_number_comes_back_twice:
  "map VerseSN (projr (fst (getVerses responsive doubled 19 5 reading_cuv))) = [1, 1]
   \<and> \<not> sorted_wrt (<) (map VerseSN (projr (fst (getVerses responsive doubled 19 5 reading_cuv))))"
proof -
  have i: "initDatabase responsive reading_cuv =
             (Inr \<lparr>handle_no = 0, handle_file = ''bible_cuv.db''\<rparr>, reading_cuv)"
    by (simp add: reading_cuv_eq initDatabase_def)
  have "fst (getVerses responsive doubled 19 5 reading_cuv) =
     Inr [\<lparr> ID = 14000, VolumeSN = 19, ChapterSN = 5, VerseSN = 1, Lection = ''Give ear'' \<rparr>,
          \<lparr> ID = 14001, VolumeSN = 19, ChapterSN = 5, VerseSN = 1, Lection = ''Give ear'' \<rparr>]"
    unfolding getVerses_def i
    by (simp add: responsive_def doubled_def reading_cuv_eq)
  then show ?thesis by simp
qed

text \<open>
  C5, as amended.  Whatever \<open>getVerses\<close> returns is in ascending order of the verse
  number, equal numbers allowed, and every returned row has the book and the chapter
  asked for; this holds for every chapter number, within the chapter count of the book
  or not.  When the database opens, the query resolves and the file has the tables of
  the active version, \<open>getVerses\<close> returns as many rows as the verse table holds for
  that book and chapter, so the empty list, and not an error, when it holds none; and
  the returned verse numbers are strictly ascending when the table holds no verse number
  twice for that book and chapter.
\<close>

theorem getVerses_ordered_rows:
  "(fst (getVerses oc contents bookId chapter s) = Inr rows \<longrightarrow>
      sorted (map VerseSN rows)
      \<and> (\<forall>v \<in> set rows. VolumeSN v = bookId \<and> ChapterSN v = chapter))
   \<and> (initDatabase oc s = (Inr h, s1) \<and> getAllAsync_ok oc
        \<and> layout_fits (activeVersion s) (contents (handle_file h)) \<longrightarrow>
        (\<exists>found. getVerses oc contents bookId chapter s = (Inr found, s1)
           \<and> length found = indexed_rows (contents (handle_file h)) bookId chapter
           \<and> (distinct (verse_numbers (contents (handle_file h)) bookId chapter) \<longrightarrow>
                sorted_wrt (<) (map VerseSN found)))
        \<and> (indexed_rows (contents (handle_file h)) bookId chapter = 0 \<longrightarrow>
             getVerses oc contents bookId chapter s = (Inr [], s1)))"
proof (intro conjI impI)
  assume r: "fst (getVerses oc contents bookId chapter s) = Inr rows"
  obtain q s2 where i: "initDatabase oc s = (q, s2)"
    by (cases "initDatabase oc s")
  from r i obtain opened :: handle where
    "versesQuery (activeVersion s2) (contents (handle_file opened)) bookId chapter = Inr rows"
    by (cases q) (auto simp: getVerses_def split: if_splits)
  from versesQuery_rows [OF this]
  show "sorted (map VerseSN rows)" and "\<forall>v \<in> set rows. VolumeSN v = bookId \<and> ChapterSN v = chapter"
    by simp_all
next
  assume a: "initDatabase oc s = (Inr h, s1) \<and> getAllAsync_ok oc
        \<and> layout_fits (activeVersion s) (contents (handle_file h))"
  then have v: "activeVersion s1 = activeVersion s"
    using initDatabase_version by blast
  from a versesQuery_fits [of "activeVersion s" "contents (handle_file h)" bookId "chapter"]
  obtain found where f: "versesQuery (activeVersion s) (contents (handle_file h)) bookId chapter = Inr found"
      "length found = indexed_rows (contents (handle_file h)) bookId chapter"
    by blast
  with a v have g: "getVerses oc contents bookId chapter s = (Inr found, s1)"
    by (simp add: getVerses_def)
  have strict: "sorted_wrt (<) (map VerseSN found)"
    if "distinct (verse_numbers (contents (handle_file h)) bookId chapter)"
    using that versesQuery_rows [OF f(1)] versesQuery_numbers [OF f(1)]
    by (simp add: strict_sorted_iff)
  from f g strict
  show "\<exists>found. getVerses oc contents bookId chapter s = (Inr found, s1)
           \<and> length found = indexed_rows (contents (handle_file h)) bookId chapter
           \<and> (distinct (verse_numbers (contents (handle_file h)) bookId chapter) \<longrightarrow>
                sorted_wrt (<) (map VerseSN found))"
    by blast
  show "getVerses oc contents bookId chapter s = (Inr [], s1)"
    if "indexed_rows (contents (handle_file h)) bookId chapter = 0"
    using that f g by simp
qed

text \<open>
  Psalm 5, whose two verses are distinct in the table, comes back as verses 1 and 2;
  Psalm 6, which has no rows here, as the empty list.
\<close>

theorem getVerses_ordered_rows_witness:
  "map VerseSN (projr (fst (getVerses responsive bundled 19 5 reading_cuv))) = [1, 2]
   \<and> sorted_wrt (<) (map VerseSN (projr (fst (getVerses responsive bundled 19 5 reading_cuv))))
   \<and> getVerses responsive bundled 19 6 reading_cuv = (Inr [], reading_cuv)"
proof -
  let ?h = "\<lparr>handle_no = 0, handle_file = ''bible_cuv.db''\<rparr>"
  have i: "initDatabase responsive reading_cuv = (Inr ?h, reading_cuv)"
    by (simp add: reading_cuv_eq initDatabase_def)
  have rows: "fst (getVerses responsive bundled 19 5 reading_cuv) =
     Inr [\<lparr> ID = 14000, VolumeSN = 19, ChapterSN = 5, VerseSN = 1, Lection = ''Give ear'' \<rparr>,
          \<lparr> ID = 14001, VolumeSN = 19, ChapterSN = 5, VerseSN = 2, Lection = ''Hearken'' \<rparr>]"
    unfolding getVerses_def i
    by (simp add: responsive_def bundled_def psalm_5_def reading_cuv_eq)
  have fits: "getAllAsync_ok responsive
     \<and> layout_fits (activeVersion reading_cuv) (bundled (handle_file ?h))"
    by (simp add: responsive_def bundled_def reading_cuv_eq)
  have none: "indexed_rows (bundled (handle_file ?h)) 19 6 = 0"
    by (simp add: bundled_def psalm_5_def)
  have apart: "distinct (verse_numbers (bundled (handle_file ?h)) 19 5)"
    by (simp add: bundled_def psalm_5_def)
  from getVerses_ordered_rows [of responsive bundled 19 6 reading_cuv "[]" ?h reading_cuv]
    i fits none
  have empty: "getVerses responsive bundled 19 6 reading_cuv = (Inr [], reading_cuv)"
    by blast
  from getVerses_ordered_rows [of responsive bundled 19 5 reading_cuv "[]" ?h reading_cuv]
    i fits apart
  obtain found where "getVerses responsive bundled 19 5 reading_cuv = (Inr found, reading_cuv)"
    and "sorted_wrt (<) (map VerseSN found)"
    by blast
  with rows empty show ?thesis by simp
qed

subsection \<open>Reading history\<close>

lemma with_new_item_take:
  "with_new_item x h = take 20 (x # filter (\<lambda>e. position e \<noteq> position x) h)"
  by (auto simp: with_new_item_def position_def Let_def)

lemma with_new_item_Cons:
  "with_new_item x h = x # take 19 (filter (\<lambda>e. position e \<noteq> position x) h)"
  by (simp add: with_new_item_take take_Cons')

lemma with_new_item_length: "length (with_new_item x h) \<le> 20"
  by (simp add: with_new_item_take)

lemma with_new_item_once:
  "length (filter (\<lambda>e. position e = position x) (with_new_item x h)) = 1"
proof -
  have "filter (\<lambda>e. position e = position x) (take 19 (filter (\<lambda>e. position e \<noteq> position x) h)) = []"
    by (auto simp: filter_empty_conv dest: in_set_takeD)
  then show ?thesis
    by (simp add: with_new_item_Cons)
qed

lemma with_new_item_distinct:
  assumes "distinct (map position h)"
  shows "distinct (map position (with_new_item x h))"
proof -
  have "distinct (map position (filter (\<lambda>e. position e \<noteq> position x) h))"
    using assms by (rule distinct_map_filter)
  then have "distinct (map position (take 19 (filter (\<lambda>e. position e \<noteq> position x) h)))"
    by (simp add: take_map [symmetric])
  moreover have "position x \<notin> set (map position (take 19 (filter (\<lambda>e. position e \<noteq> position x) h)))"
    by (auto dest: in_set_takeD)
  ultimately show ?thesis
    by (simp add: with_new_item_Cons)
qed

lemma with_new_item_revisit:
  assumes "position x \<in> set (map position h)"
  shows "length (with_new_item x h) \<le> length h"
proof -
  from assms obtain e where "e \<in> set h" "position e = position x" by auto
  then have "length (filter (\<lambda>e. position e \<noteq> position x) h) < length h"
    using length_filter_less [of e h "\<lambda>e. position e \<noteq> position x"] by simp
  then show ?thesis
    by (simp add: with_new_item_take)
qed

lemma take_take_append:
  "n \<le> m \<Longrightarrow> take n (take m xs @ ys) = take n (xs @ ys)"
  by (cases "length xs \<le> m") (simp_all add: min_def)

lemma filter_fresh:
  assumes "\<forall>e \<in> set xs. position e \<noteq> position x"
  shows "filter (\<lambda>e. position e \<noteq> position x) xs = xs"
  using assms by (simp add: filter_id_conv)

lemma log_all_snoc: "log_all history (items @ [x]) = with_new_item x (log_all history items)"
  by (simp add: log_all_def)

lemma log_all_recent:
  assumes "items \<noteq> []" and "distinct (map position items)"
  shows "\<exists>older. log_all history items = take 20 (rev items @ older)"
  using assms
proof (induction items rule: rev_nonempty_induct)
  case (single x)
  have "log_all history [x] = take 20 (rev [x] @ filter (\<lambda>e. position e \<noteq> position x) history)"
    by (simp add: log_all_def with_new_item_take)
  then show ?case by blast
next
  case (snoc x items)
  from snoc.prems have d: "distinct (map position items)"
    and "position x \<notin> position ` set items"
    by simp_all
  then have fresh: "\<forall>e \<in> set items. position e \<noteq> position x"
    by (metis imageI)
  from snoc.IH [OF d] obtain older where
    ih: "log_all history items = take 20 (rev items @ older)" by blast
  let ?P = "\<lambda>e. position e \<noteq> position x"
  let ?F = "filter ?P (take (20 - length items) older)"
  have "\<forall>e \<in> set (take 20 (rev items)). position e \<noteq> position x"
    using fresh by (auto dest: in_set_takeD)
  then have keep: "filter ?P (take 20 (rev items)) = take 20 (rev items)"
    by (rule filter_fresh)
  have "filter ?P (log_all history items) = take 20 (rev items) @ ?F"
    by (simp add: ih keep)
  then have "log_all history (items @ [x]) = x # take 19 (take 20 (rev items) @ ?F)"
    by (simp add: log_all_snoc with_new_item_Cons)
  also have "take 19 (take 20 (rev items) @ ?F) = take 19 (rev items @ ?F)"
    by (rule take_take_append) simp
  finally have "log_all history (items @ [x]) = take 20 (rev (items @ [x]) @ ?F)"
    by (simp add: take_Cons')
  then show ?case by blast
qed

lemma log_all_twenty:
  assumes "20 \<le> length items" and "distinct (map position items)"
  shows "log_all history items = take 20 (rev items)"
proof -
  from assms(1) have "items \<noteq> []" by auto
  from log_all_recent [OF this assms(2)] obtain older where
    "log_all history items = take 20 (rev items @ older)" by blast
  with assms(1) show ?thesis by simp
qed

lemma log_all_twenty_one:
  assumes "length items = 21" and "distinct (map position items)"
  shows "log_all history items = rev (tl items)"
proof -
  from assms(1) obtain x rest where items: "items = x # rest" and r: "length rest = 20"
    by (cases items) auto
  have "log_all history items = take 20 (rev items)"
    using assms by (intro log_all_twenty) simp_all
  with items r show ?thesis by simp
qed

lemma openChapter_step:
  assumes "getItem_ok so" "setItem_ok so" "num \<noteq> 0"
    and "stored_history (bible_reading_history st) = Inr history"
  shows "openChapter so (book, num, now) (st, ui) =
     (st\<lparr>bible_reading_history :=
           Parsed (ItemArray (with_new_item (item_of (book, num, now)) history))\<rparr>,
      ui\<lparr>currentBook := Some book, currentChapter := num,
         readingHistory := with_new_item (item_of (book, num, now)) history\<rparr>)"
  using assms by (simp add: openChapter_def saveHistory_def item_of_def Let_def)

lemma visits_snoc: "visits so (ps @ [p]) start = openChapter so p (visits so ps start)"
  by (simp add: visits_def)

lemma visits_log:
  assumes "getItem_ok so" "setItem_ok so"
    and "stored_history (bible_reading_history st) = Inr history"
    and "\<forall>(book, num, now) \<in> set ps. num \<noteq> 0"
  shows "stored_history (bible_reading_history (fst (visits so ps (st, ui)))) =
           Inr (log_all history (map item_of ps))
         \<and> (ps \<noteq> [] \<longrightarrow> readingHistory (snd (visits so ps (st, ui))) =
               log_all history (map item_of ps))"
  using assms(4)
proof (induction ps rule: rev_induct)
  case Nil
  show ?case using assms(3) by (simp add: visits_def log_all_def)
next
  case (snoc p ps)
  obtain book num now where p: "p = (book, num, now)" by (cases p)
  obtain st1 ui1 where v: "visits so ps (st, ui) = (st1, ui1)" by (cases "visits so ps (st, ui)")
  from snoc.prems p have n: "num \<noteq> 0" by auto
  from snoc v have s1: "stored_history (bible_reading_history st1) = Inr (log_all history (map item_of ps))"
    by simp
  show ?case
    by (simp add: visits_snoc v p openChapter_step [OF assms(1,2) n s1] log_all_snoc)
qed


lemma log_all_distinct:
  "distinct (map position history) \<Longrightarrow> distinct (map position (log_all history items))"
  by (induction items rule: rev_induct) (simp_all add: log_all_def with_new_item_distinct)

text \<open>
  C4.  With AsyncStorage answering and a stored history that parses (no item, an array
  or a legacy object), opening book \<open>book\<close> at chapter \<open>num\<close> leaves, in storage and on
  the screen, the old entries without those of the same position, the new entry put
  first, cut to 20: the log has at most 20 entries, starts with the new one, holds its
  position once, stays free of repeated positions when it was, and is no longer than
  before when the position was already logged.  After any list of visits the stored log
  is the one built entry by entry, and it has no repeated position if it started without
  one.  After 21 visits of distinct positions the log is the last 20 of them, most recent
  first: 20 entries, the last visit at the head, the first visit gone.
\<close>

theorem reading_history_log:
  assumes "getItem_ok so" and "setItem_ok so"
    and "stored_history (bible_reading_history st) = Inr history"
    and "num \<noteq> 0"
    and "\<forall>(book, num, now) \<in> set ps. num \<noteq> 0"
  shows
    "(let item = item_of (book, num, now);
          log = readingHistory (snd (openChapter so (book, num, now) (st, ui)))
      in log = take 20 (item # filter (\<lambda>h. position h \<noteq> position item) history)
       \<and> bible_reading_history (fst (openChapter so (book, num, now) (st, ui))) =
           Parsed (ItemArray log)
       \<and> length log \<le> 20
       \<and> hd log = item
       \<and> length (filter (\<lambda>h. position h = position item) log) = 1
       \<and> (distinct (map position history) \<longrightarrow> distinct (map position log))
       \<and> (position item \<in> set (map position history) \<longrightarrow> length log \<le> length history))
     \<and> (let items = map item_of ps;
             log = readingHistory (snd (visits so ps (st, ui)))
         in stored_history (bible_reading_history (fst (visits so ps (st, ui)))) =
              Inr (log_all history items)
          \<and> (ps \<noteq> [] \<longrightarrow> log = log_all history items)
          \<and> (distinct (map position history) \<longrightarrow>
                distinct (map position (log_all history items)))
          \<and> (distinct (map position items) \<and> length ps = 21 \<longrightarrow>
                log = rev (tl items) \<and> length log = 20 \<and> hd log = last items
                \<and> position (hd items) \<notin> set (map position log)))"
proof -
  let ?item = "item_of (book, num, now)"
  let ?log = "with_new_item ?item history"
  have step: "openChapter so (book, num, now) (st, ui) =
     (st\<lparr>bible_reading_history := Parsed (ItemArray ?log)\<rparr>,
      ui\<lparr>currentBook := Some book, currentChapter := num, readingHistory := ?log\<rparr>)"
    by (rule openChapter_step [OF assms(1,2,4,3)])
  have a1: "?log = take 20 (?item # filter (\<lambda>h. position h \<noteq> position ?item) history)"
    by (rule with_new_item_take)
  have a2: "length ?log \<le> 20"
    by (rule with_new_item_length)
  have a3: "hd ?log = ?item"
    by (simp add: with_new_item_Cons)
  have a4: "length (filter (\<lambda>h. position h = position ?item) ?log) = 1"
    by (rule with_new_item_once)
  have a5: "distinct (map position history) \<longrightarrow> distinct (map position ?log)"
    by (simp add: with_new_item_distinct)
  have a6: "position ?item \<in> set (map position history) \<longrightarrow> length ?log \<le> length history"
    using with_new_item_revisit by blast
  have first: "let item = item_of (book, num, now);
          log = readingHistory (snd (openChapter so (book, num, now) (st, ui)))
      in log = take 20 (item # filter (\<lambda>h. position h \<noteq> position item) history)
       \<and> bible_reading_history (fst (openChapter so (book, num, now) (st, ui))) =
           Parsed (ItemArray log)
       \<and> length log \<le> 20
       \<and> hd log = item
       \<and> length (filter (\<lambda>h. position h = position item) log) = 1
       \<and> (distinct (map position history) \<longrightarrow> distinct (map position log))
       \<and> (position item \<in> set (map position history) \<longrightarrow> length log \<le> length history)"
    unfolding Let_def step using a1 a2 a3 a4 a5 a6 by simp
  let ?items = "map item_of ps"
  let ?all = "readingHistory (snd (visits so ps (st, ui)))"
  have b1: "stored_history (bible_reading_history (fst (visits so ps (st, ui)))) =
              Inr (log_all history ?items)"
    and b2: "ps \<noteq> [] \<longrightarrow> ?all = log_all history ?items"
    using visits_log [OF assms(1,2,3,5)] by blast+
  have b3: "distinct (map position history) \<longrightarrow> distinct (map position (log_all history ?items))"
    by (simp add: log_all_distinct)
  have b4: "?all = rev (tl ?items) \<and> length ?all = 20 \<and> hd ?all = last ?items
            \<and> position (hd ?items) \<notin> set (map position ?all)"
    if d: "distinct (map position ?items)" and l: "length ps = 21"
  proof -
    from l have ne: "ps \<noteq> []" by auto
    from l have "length ?items = 21" by simp
    from log_all_twenty_one [OF this d] b2 ne have eq: "?all = rev (tl ?items)"
      by simp
    from l obtain p rest where ps: "ps = p # rest" and r: "length rest = 20"
      by (cases ps) auto
    then have rest: "rest \<noteq> []" by auto
    have "hd (rev (map item_of rest)) = last (map item_of rest)"
      using rest by (simp add: hd_rev)
    moreover have "position (item_of p) \<notin> set (map position (map item_of rest))"
      using d ps by simp
    ultimately show ?thesis
      using eq ps r rest by (simp add: image_image)
  qed
  have second: "let items = map item_of ps;
             log = readingHistory (snd (visits so ps (st, ui)))
         in stored_history (bible_reading_history (fst (visits so ps (st, ui)))) =
              Inr (log_all history items)
          \<and> (ps \<noteq> [] \<longrightarrow> log = log_all history items)
          \<and> (distinct (map position history) \<longrightarrow>
                distinct (map position (log_all history items)))
          \<and> (distinct (map position items) \<and> length ps = 21 \<longrightarrow>
                log = rev (tl items) \<and> length log = 20 \<and> hd log = last items
                \<and> position (hd items) \<notin> set (map position log))"
    unfolding Let_def using b1 b2 b3 b4 by blast
  from first second show ?thesis by (rule conjI)
qed


text \<open>
  Opening chapters 1 to 21 of Genesis on a device with nothing stored leaves chapters
  21 down to 2.
\<close>

theorem reading_history_log_witness:
  "map h_chapter (readingHistory (snd (visits storage_ok genesis_1_to_21 (nothing_stored, at_psalm_5))))
     = [21, 20, 19, 18, 17, 16, 15, 14, 13, 12, 11, 10, 9, 8, 7, 6, 5, 4, 3, 2]
   \<and> map h_chapter (readingHistory (snd (openChapter storage_ok (genesis, 1, 1700000000000)
         (nothing_stored, at_psalm_5)))) = [1]"
proof -
  have 1: "getItem_ok storage_ok" and 2: "setItem_ok storage_ok"
    by (simp_all add: storage_ok_def)
  have 3: "stored_history (bible_reading_history nothing_stored) = Inr []"
    by (simp add: nothing_stored_def)
  have 4: "(1::int) \<noteq> 0"
    by simp
  have 5: "\<forall>(book, num, now) \<in> set genesis_1_to_21. num \<noteq> 0"
    by (simp add: genesis_1_to_21_def)
  have 6: "distinct (map position (map item_of genesis_1_to_21))"
    by (simp add: genesis_1_to_21_def item_of_def position_def)
  have 7: "length genesis_1_to_21 = 21"
    by (simp add: genesis_1_to_21_def)
  from reading_history_log [OF 1 2 3 4 5, of genesis 1700000000000 at_psalm_5] 6 7
  have "readingHistory (snd (visits storage_ok genesis_1_to_21 (nothing_stored, at_psalm_5)))
          = rev (tl (map item_of genesis_1_to_21))"
    and "readingHistory (snd (openChapter storage_ok (genesis, 1, 1700000000000)
           (nothing_stored, at_psalm_5)))
          = take 20 (item_of (genesis, 1, 1700000000000)
              # filter (\<lambda>h. position h \<noteq> position (item_of (genesis, 1, 1700000000000))) [])"
    by (simp_all add: Let_def)
  then show ?thesis
    by (simp add: genesis_1_to_21_def item_of_def)
qed

subsection \<open>Highlights\<close>

lemma highlight_one:
  assumes "find (\<lambda>v. VerseSN v = sn) (verses ui) = Some verse"
    and "selectedVersesForAction ui = [sn]"
  shows "handleHighlightSelected so (st, ui) =
     (let data = (if flag (highlightedVerses ui) (getVerseKey verse)
                  then (highlightedVerses ui)(getVerseKey verse := None)
                  else (highlightedVerses ui)(getVerseKey verse \<mapsto> True))
      in (if setItem_ok so then st\<lparr>bible_highlights := Parsed data\<rparr> else st,
          exitSelectionMode (ui\<lparr>highlightedVerses := data\<rparr>)))"
  using assms
  by (simp add: handleHighlightSelected_def add_highlight_def remove_highlight_def
      persistHighlights_def Let_def)

lemma toggleHighlight_one:
  assumes "\<not> isSelectionMode ui"
    and "find (\<lambda>v. VerseSN v = VerseSN verse) (verses ui) = Some verse"
  shows "toggleHighlight so verse (st, ui) =
     (let data = (if flag (highlightedVerses ui) (getVerseKey verse)
                  then (highlightedVerses ui)(getVerseKey verse := None)
                  else (highlightedVerses ui)(getVerseKey verse \<mapsto> True))
      in (if setItem_ok so then st\<lparr>bible_highlights := Parsed data\<rparr> else st,
          ui\<lparr>highlightedVerses := data, isSelectionMode := False,
             selectedVersesForAction := []\<rparr>))"
proof -
  let ?ui = "onVerseLongPress verse ui"
  have 1: "find (\<lambda>v. VerseSN v = VerseSN verse) (verses ?ui) = Some verse"
    and 2: "selectedVersesForAction ?ui = [VerseSN verse]"
    and 3: "highlightedVerses ?ui = highlightedVerses ui"
    using assms by (simp_all add: onVerseLongPress_def)
  have "exitSelectionMode (?ui\<lparr>highlightedVerses := d\<rparr>) =
          ui\<lparr>highlightedVerses := d, isSelectionMode := False, selectedVersesForAction := []\<rparr>"
    for d
    using assms(1) by (simp add: exitSelectionMode_def onVerseLongPress_def)
  then show ?thesis
    by (simp add: toggleHighlight_def highlight_one [OF 1 2] 3 Let_def)
qed

text \<open>
  C7 as stated fails when the verse is selected together with others.  With Psalm 5:1
  highlighted and 5:2 not, selecting both and pressing the highlight button leaves the
  key of 5:1 present, and pressing it again on the same selection removes it: after the
  two presses the key that was \<open>true\<close> is absent.
\<close>

theorem highlighted_verse_selected_with_another:
  "highlightedVerses psalm_5_1_highlighted ''19-5-1'' = Some True
   \<and> highlightedVerses
        (snd (highlightVerses storage_ok psalm_5_shown (nothing_stored, psalm_5_1_highlighted)))
        ''19-5-1'' = Some True
   \<and> highlightedVerses
        (snd (highlightVerses storage_ok psalm_5_shown
               (highlightVerses storage_ok psalm_5_shown (nothing_stored, psalm_5_1_highlighted))))
        ''19-5-1'' = None"
  by (simp add: highlightVerses_def selectVerses_def handleHighlightSelected_def
      add_highlight_def remove_highlight_def persistHighlights_def exitSelectionMode_def
      onVerseLongPress_def onVersePress_def psalm_5_1_highlighted_def at_psalm_5_def
      psalm_5_shown_def storage_ok_def nothing_stored_def getVerseKey_def toString_def
      decimal.simps flag_def Let_def)

text \<open>
  C7, as amended.  Take a verse shown on the screen, the first shown with its verse
  number, and toggle its highlight twice with that verse alone selected each time (long
  press outside selection mode, highlight button, and again), whatever AsyncStorage
  answers.  A key that is absent is set to \<open>true\<close> by the first toggle and removed by
  the second; a key that is \<open>true\<close> is removed by the first and set to \<open>true\<close> again
  by the second; in both cases the whole map is the one before.  For every map the flag
  the screen reads, \<open>!!highlightedVerses[key]\<close>, is after two such toggles what it was
  before; an entry stored as \<open>false\<close> is set to \<open>true\<close> by the first toggle and is
  absent after the second.
\<close>

theorem toggle_highlight_twice:
  assumes "\<not> isSelectionMode ui"
    and "find (\<lambda>v. VerseSN v = VerseSN verse) (verses ui) = Some verse"
  shows
    "let key = getVerseKey verse;
         before = highlightedVerses ui;
         once = highlightedVerses (snd (toggleHighlight so1 verse (st, ui)));
         twice = highlightedVerses
                   (snd (toggleHighlight so2 verse (toggleHighlight so1 verse (st, ui))))
     in (before key = None \<longrightarrow> once = before(key \<mapsto> True) \<and> twice = before)
      \<and> (before key = Some True \<longrightarrow> once = before(key := None) \<and> twice = before)
      \<and> (before key = Some False \<longrightarrow> once = before(key \<mapsto> True) \<and> twice = before(key := None))
      \<and> flag twice key = flag before key"
proof -
  let ?key = "getVerseKey verse"
  let ?m = "highlightedVerses ui"
  let ?d = "if flag ?m ?key then ?m(?key := None) else ?m(?key \<mapsto> True)"
  obtain st1 ui1 where t1: "toggleHighlight so1 verse (st, ui) = (st1, ui1)"
    by (cases "toggleHighlight so1 verse (st, ui)")
  with toggleHighlight_one [OF assms, where so = so1 and st = st]
  have ui1: "ui1 = ui\<lparr>highlightedVerses := ?d, isSelectionMode := False,
                       selectedVersesForAction := []\<rparr>"
    by (simp add: Let_def)
  then have a: "\<not> isSelectionMode ui1"
    and b: "find (\<lambda>v. VerseSN v = VerseSN verse) (verses ui1) = Some verse"
    and once: "highlightedVerses ui1 = ?d"
    using assms by simp_all
  have twice: "highlightedVerses (snd (toggleHighlight so2 verse (st1, ui1))) =
      (if flag ?d ?key then ?d(?key := None) else ?d(?key \<mapsto> True))"
    by (simp add: toggleHighlight_one [OF a b] Let_def once)
  have "?m ?key = None \<or> ?m ?key = Some True \<or> ?m ?key = Some False"
    by (cases "?m ?key") auto
  then show ?thesis
    unfolding Let_def t1 snd_conv twice once
    by (auto simp: flag_def fun_upd_idem)
qed

text \<open>Psalm 5:1, not highlighted: highlighted after one toggle, absent again after two.\<close>

theorem toggle_highlight_twice_witness:
  "highlightedVerses (snd (toggleHighlight storage_ok (hd psalm_5_shown) (nothing_stored, at_psalm_5)))
     ''19-5-1'' = Some True
   \<and> highlightedVerses (snd (toggleHighlight storage_ok (hd psalm_5_shown)
        (toggleHighlight storage_ok (hd psalm_5_shown) (nothing_stored, at_psalm_5))))
     ''19-5-1'' = None"
proof -
  have 1: "\<not> isSelectionMode at_psalm_5"
    by (simp add: at_psalm_5_def)
  have 2: "find (\<lambda>v. VerseSN v = VerseSN (hd psalm_5_shown)) (verses at_psalm_5)
             = Some (hd psalm_5_shown)"
    by (simp add: at_psalm_5_def psalm_5_shown_def)
  have 3: "getVerseKey (hd psalm_5_shown) = ''19-5-1''"
    by (simp add: psalm_5_shown_def getVerseKey_def toString_def decimal.simps)
  have 4: "highlightedVerses at_psalm_5 ''19-5-1'' = None"
    by (simp add: at_psalm_5_def)
  from toggle_highlight_twice [OF 1 2, where ?so1.0 = storage_ok and ?so2.0 = storage_ok and st = nothing_stored] 3 4
  show ?thesis
    by (simp add: Let_def)
qed

subsection \<open>Reading progress\<close>

text \<open>
  C8.  \<open>getReadingProgress\<close> gives \<open>0\<close> for a post without a stored item and when
  \<open>getItem\<close> rejects, but \<open>parseFloat\<close> does not throw on a text that is not a number:
  for the stored text \<open>abc\<close> the function returns \<open>NaN\<close>, not \<open>0\<close>.
\<close>

theorem unparsable_progress_reads_as_NaN:
  "getReadingProgress storage_ok [''reading_progress_5'' \<mapsto> ''abc''] 5 = NaN
   \<and> getReadingProgress storage_ok Map.empty 5 = Finite 0
   \<and> getReadingProgress (storage_ok\<lparr>getItem_ok := False\<rparr>) [''reading_progress_5'' \<mapsto> ''abc''] 5
       = Finite 0"
  by (simp add: getReadingProgress_def storage_ok_def PROGRESS_PREFIX_def toString_def
      decimal.simps parseFloat_def signOf_def isWhiteSpace_def isDigit_def)

end
